theory Spec2Isabelle
  imports Complex_Main "HOL-Library.Sublist"
begin

section \<open>MemoryVault: the event reducer, knowledge filter, auto-hide and location links\<close>

text \<open>
  A shallow embedding of the JavaScript sources of MemoryVault.  Objects are records,
  dictionaries are maps or association lists, in-place mutation is explicit state
  passing, and a thrown \<open>TypeError\<close> is the left injection of a sum.

  Numbers.  A relationship dimension, which the code only adds to and clamps, is a
  \<open>real\<close>, without the rounding of doubles.  Where the code can produce \<open>NaN\<close> or
  \<open>Infinity\<close> the type \<open>jsnum\<close> below is used, and its arithmetic rounds to the nearest
  double (\<open>to_double\<close>).  A JSON number is taken to be finite.

  Strings are byte strings (\<open>char list\<close>); \<open>toLowerCase\<close>, \<open>trim\<close> and the regular
  expression classes are modelled on ASCII.

  \<open>Date.now()\<close> and \<open>generateId()\<close> are parameters of the functions that call them, and
  the asynchronous functions are modelled by the state they leave: saving the chat,
  logging and toasts are left out.
\<close>

subsection \<open>JSON values and JavaScript numbers\<close>

text \<open>
  What \<open>JSON.parse\<close> can return.  A JSON number is finite and never \<open>NaN\<close>;
  an object is the list of its own properties in order, keys unique.
\<close>

datatype json =
    JNull
  | JBool bool
  | JNum real
  | JStr string
  | JArr "json list"
  | JObj "(string \<times> json) list"

datatype jsnum = NaN | NegInf | Fin real | PosInf

datatype js_error = TypeError

text \<open>Truthiness of a parsed value: \<open>null\<close>, \<open>false\<close>, \<open>0\<close> and \<open>""\<close> are falsy.\<close>

fun truthy :: "json \<Rightarrow> bool" where
  "truthy JNull = False"
| "truthy (JBool b) = b"
| "truthy (JNum r) = (r \<noteq> 0)"
| "truthy (JStr s) = (s \<noteq> [])"
| "truthy (JArr xs) = True"
| "truthy (JObj kvs) = True"

text \<open>Property read \<open>o.k\<close> on an object: \<open>None\<close> is \<open>undefined\<close>.\<close>

definition get_prop :: "(string \<times> json) list \<Rightarrow> string \<Rightarrow> json option" where
  "get_prop kvs k = map_of kvs k"

text \<open>\<open>typeof v === 'number'\<close> on an optional property, giving the number.\<close>

fun number_of :: "json option \<Rightarrow> real option" where
  "number_of (Some (JNum r)) = Some r"
| "number_of _ = None"

subsection \<open>Strings: \<open>toLowerCase\<close> and \<open>includes\<close>\<close>

definition lower_char :: "char \<Rightarrow> char" where
  "lower_char c =
     (case map_of (zip ''ABCDEFGHIJKLMNOPQRSTUVWXYZ'' ''abcdefghijklmnopqrstuvwxyz'') c of
        Some d \<Rightarrow> d
      | None \<Rightarrow> c)"

definition toLowerCase :: "string \<Rightarrow> string" where
  "toLowerCase s = map lower_char s"

text \<open>\<open>s.includes(k)\<close>: \<open>k\<close> occurs in \<open>s\<close> as a contiguous substring.\<close>

fun str_includes :: "string \<Rightarrow> string \<Rightarrow> bool" where
  "str_includes [] k = (k = [])"
| "str_includes (c # cs) k = (prefix k (c # cs) \<or> str_includes cs k)"

subsection \<open>Relationships (extraction parser)\<close>

text \<open>
  A stored relationship: the names, the seven dimensions and the type.  The \<open>history\<close>
  list and \<open>last_updated_message_id\<close>, which \<open>updateRelationshipsFromEvents\<close> writes
  after it has applied an impact, are left out: the two impact functions do not touch
  them.
\<close>

record relationship =
  character_a :: string
  character_b :: string
  trust_level :: real
  tension_level :: real
  respect_level :: real
  attraction_level :: real
  fear_level :: real
  loyalty_level :: real
  familiarity_level :: real
  relationship_type :: string

text \<open>The object literal that \<open>updateRelationshipsFromEvents\<close> stores for an unseen pair.\<close>

definition new_relationship :: "string \<Rightarrow> string \<Rightarrow> relationship" where
  "new_relationship a b =
     \<lparr> character_a = a, character_b = b,
       trust_level = 5, tension_level = 0, respect_level = 5, attraction_level = 0,
       fear_level = 0, loyalty_level = 5, familiarity_level = 1,
       relationship_type = ''acquaintance'' \<rparr>"

text \<open>\<open>clamp(value, min, max) = Math.min(max, Math.max(min, value))\<close>.\<close>

definition clamp :: "real \<Rightarrow> real \<Rightarrow> real \<Rightarrow> real" where
  "clamp v lo hi = min hi (max lo v)"

text \<open>
  One guarded line of \<open>applyStructuredImpact\<close>:
  \<open>if (typeof impact.k === 'number') rel.k_level = clamp(rel.k_level + impact.k, 0, 10)\<close>,
  as the new value of the dimension (\<open>v\<close> is \<open>impact.k\<close>, \<open>x\<close> the old value).
\<close>

definition add_clamped :: "json option \<Rightarrow> real \<Rightarrow> real" where
  "add_clamped v x = (case number_of v of Some d \<Rightarrow> clamp (x + d) 0 10 | None \<Rightarrow> x)"

text \<open>
  \<open>applyStructuredImpact\<close>: the seven guarded lines.  Each reads and writes its own
  dimension only, so the sequence of assignments is one record update; \<open>impact\<close> is the
  property list of the impact object.
\<close>

definition applyStructuredImpact :: "relationship \<Rightarrow> (string \<times> json) list \<Rightarrow> relationship" where
  "applyStructuredImpact rel impact =
     rel\<lparr> trust_level := add_clamped (get_prop impact ''trust'') (trust_level rel),
          tension_level := add_clamped (get_prop impact ''tension'') (tension_level rel),
          respect_level := add_clamped (get_prop impact ''respect'') (respect_level rel),
          attraction_level := add_clamped (get_prop impact ''attraction'') (attraction_level rel),
          fear_level := add_clamped (get_prop impact ''fear'') (fear_level rel),
          loyalty_level := add_clamped (get_prop impact ''loyalty'') (loyalty_level rel),
          familiarity_level :=
            add_clamped (get_prop impact ''familiarity'') (familiarity_level rel) \<rparr>"

text \<open>
  \<open>applyLegacyImpact\<close>, block by block: each function gives the new value of one
  dimension from the lower-cased impact string \<open>l\<close> and the old value \<open>x\<close>.
\<close>

definition legacy_trust :: "string \<Rightarrow> real \<Rightarrow> real" where
  "legacy_trust l x =
     (if str_includes l ''trust'' \<and>
         (str_includes l ''increas'' \<or> str_includes l ''deepen'' \<or> str_includes l ''gain'')
      then min 10 (x + 1)
      else if str_includes l ''trust'' \<and>
         (str_includes l ''decreas'' \<or> str_includes l ''lost'' \<or> str_includes l ''betray'')
      then max 0 (x - 1)
      else x)"

definition legacy_tension :: "string \<Rightarrow> real \<Rightarrow> real" where
  "legacy_tension l x =
     (if str_includes l ''tension'' \<and> str_includes l ''increas'' then min 10 (x + 1)
      else if str_includes l ''tension'' \<and> str_includes l ''decreas'' then max 0 (x - 1)
      else x)"

definition legacy_respect :: "string \<Rightarrow> real \<Rightarrow> real" where
  "legacy_respect l x =
     (if str_includes l ''respect'' \<and>
         (str_includes l ''gain'' \<or> str_includes l ''increas'' \<or> str_includes l ''shown'')
      then min 10 (x + 1)
      else if str_includes l ''respect'' \<and>
         (str_includes l ''lost'' \<or> str_includes l ''decreas'')
      then max 0 (x - 1)
      else x)"

definition legacy_attraction :: "string \<Rightarrow> real \<Rightarrow> real" where
  "legacy_attraction l x =
     (if str_includes l ''attract'' \<or> str_includes l ''desire'' \<or>
         str_includes l ''romantic'' \<or> str_includes l ''intimacy''
      then min 10 (x + 1)
      else x)"

definition legacy_fear :: "string \<Rightarrow> real \<Rightarrow> real" where
  "legacy_fear l x =
     (if str_includes l ''fear'' \<or> str_includes l ''intimidat'' \<or> str_includes l ''threat''
      then min 10 (x + 1)
      else if str_includes l ''reassur'' \<or> str_includes l ''comfort'' then max 0 (x - 1)
      else x)"

definition legacy_loyalty :: "string \<Rightarrow> real \<Rightarrow> real" where
  "legacy_loyalty l x =
     (if str_includes l ''loyal'' \<or> str_includes l ''devotion'' \<or> str_includes l ''commit''
      then min 10 (x + 1)
      else if str_includes l ''betray'' \<or> str_includes l ''abandon'' then max 0 (x - 1)
      else x)"

text \<open>
  \<open>applyLegacyImpact\<close>: the six keyword blocks on \<open>impactStr.toLowerCase()\<close>, then
  \<open>rel.familiarity_level = Math.min(10, rel.familiarity_level + 1)\<close>, which no condition
  guards.
\<close>

definition applyLegacyImpact :: "relationship \<Rightarrow> string \<Rightarrow> relationship" where
  "applyLegacyImpact rel impactStr =
     (let l = toLowerCase impactStr
      in rel\<lparr> trust_level := legacy_trust l (trust_level rel),
              tension_level := legacy_tension l (tension_level rel),
              respect_level := legacy_respect l (respect_level rel),
              attraction_level := legacy_attraction l (attraction_level rel),
              fear_level := legacy_fear l (fear_level rel),
              loyalty_level := legacy_loyalty l (loyalty_level rel),
              familiarity_level := min 10 (familiarity_level rel + 1) \<rparr>)"

text \<open>
  The dispatch of \<open>updateRelationshipsFromEvents\<close>: an impact whose \<open>typeof\<close> is
  \<open>'object'\<close> and that is not \<open>null\<close> goes to \<open>applyStructuredImpact\<close> (\<open>Structured\<close>
  carries its properties; an array has none of the seven), anything else goes to
  \<open>applyLegacyImpact\<close> as \<open>String(impact)\<close> (\<open>Legacy\<close> carries that string).
\<close>

datatype impact = Structured "(string \<times> json) list" | Legacy string

fun applyImpact :: "relationship \<Rightarrow> impact \<Rightarrow> relationship" where
  "applyImpact rel (Structured kvs) = applyStructuredImpact rel kvs"
| "applyImpact rel (Legacy s) = applyLegacyImpact rel s"

text \<open>The seven dimensions lie in \<open>[0,10]\<close>.\<close>

definition dims_in_range :: "relationship \<Rightarrow> bool" where
  "dims_in_range r \<longleftrightarrow>
     0 \<le> trust_level r \<and> trust_level r \<le> 10 \<and>
     0 \<le> tension_level r \<and> tension_level r \<le> 10 \<and>
     0 \<le> respect_level r \<and> respect_level r \<le> 10 \<and>
     0 \<le> attraction_level r \<and> attraction_level r \<le> 10 \<and>
     0 \<le> fear_level r \<and> fear_level r \<le> 10 \<and>
     0 \<le> loyalty_level r \<and> loyalty_level r \<le> 10 \<and>
     0 \<le> familiarity_level r \<and> familiarity_level r \<le> 10"


subsection \<open>Character states (extraction parser)\<close>

text \<open>
  An event as \<open>updateCharacterStatesFromEvents\<close> reads it: \<open>ev_emotional_impact\<close> is
  \<open>Object.entries(event.emotional_impact)\<close> (empty when the property is falsy),
  \<open>ev_witnesses\<close> is \<open>event.witnesses || []\<close>.
\<close>

record event =
  ev_id :: string
  ev_message_ids :: "int list"
  ev_event_type :: string
  ev_emotional_tone :: "string list"
  ev_emotional_valence :: real
  ev_emotional_impact :: "(string \<times> string) list"
  ev_witnesses :: "string list"

record history_entry =
  h_emotion :: string
  h_timestamp :: int
  h_event_id :: string
  h_message_range :: "(int \<times> int) option"
  h_event_type :: string
  h_emotional_tone :: "string list"
  h_valence :: real

text \<open>
  A character state.  A missing \<open>emotion_history\<close> (data of an older version) is the
  empty list: the code replaces it by \<open>[]\<close> before it reads it.
\<close>

record character_state =
  cs_name :: string
  current_emotion :: string
  emotion_intensity :: int
  known_events :: "string list"
  emotion_history :: "history_entry list"
  last_updated :: "int option"
  emotion_from_messages :: "(int \<times> int) option"

definition MAX_EMOTION_HISTORY :: nat where
  "MAX_EMOTION_HISTORY = 50"

text \<open>The object literal stored for a character seen for the first time.\<close>

definition new_character :: "string \<Rightarrow> character_state" where
  "new_character n =
     \<lparr> cs_name = n, current_emotion = ''neutral'', emotion_intensity = 5,
       known_events = [], emotion_history = [],
       last_updated = None, emotion_from_messages = None \<rparr>"

text \<open>\<open>xs.slice(-n)\<close> for \<open>n > 0\<close>: the last \<open>n\<close> elements, all of \<open>xs\<close> when it is shorter.\<close>

definition slice_last :: "nat \<Rightarrow> 'a list \<Rightarrow> 'a list" where
  "slice_last n xs = drop (length xs - n) xs"

text \<open>\<open>{ min: Math.min(...ids), max: Math.max(...ids) }\<close>, or \<open>null\<close> for no ids.\<close>

fun message_range :: "int list \<Rightarrow> (int \<times> int) option" where
  "message_range [] = None"
| "message_range (x # xs) = Some (fold min xs x, fold max xs x)"

definition history_entry_of :: "int \<Rightarrow> event \<Rightarrow> string \<Rightarrow> history_entry" where
  "history_entry_of now ev emotion =
     \<lparr> h_emotion = emotion, h_timestamp = now, h_event_id = ev_id ev,
       h_message_range = message_range (ev_message_ids ev),
       h_event_type = ev_event_type ev,
       h_emotional_tone = ev_emotional_tone ev,
       h_valence = ev_emotional_valence ev \<rparr>"

text \<open>
  The body of the loop over \<open>Object.entries(event.emotional_impact)\<close>, for one pair
  \<open>(charName, emotion)\<close>; \<open>now\<close> is \<open>Date.now()\<close>.  The characters dictionary is a map.
\<close>

definition apply_emotion ::
  "int \<Rightarrow> event \<Rightarrow> (string \<rightharpoonup> character_state) \<Rightarrow> string \<times> string
   \<Rightarrow> (string \<rightharpoonup> character_state)" where
  "apply_emotion now ev chars p =
     (let charName = fst p; emotion = snd p;
          charState = (case chars charName of None \<Rightarrow> new_character charName | Some c \<Rightarrow> c);
          pushed = emotion_history charState @ [history_entry_of now ev emotion];
          trimmed = (if length pushed > MAX_EMOTION_HISTORY
                     then slice_last MAX_EMOTION_HISTORY pushed else pushed)
      in chars(charName \<mapsto>
           charState\<lparr> emotion_history := trimmed,
                      current_emotion := emotion,
                      last_updated := Some now,
                      emotion_from_messages :=
                        (case message_range (ev_message_ids ev) of
                           None \<Rightarrow> emotion_from_messages charState
                         | Some r \<Rightarrow> Some r) \<rparr>))"

text \<open>The body of the loop over the witnesses.\<close>

definition add_witness ::
  "event \<Rightarrow> (string \<rightharpoonup> character_state) \<Rightarrow> string \<Rightarrow> (string \<rightharpoonup> character_state)" where
  "add_witness ev chars witness =
     (let c = (case chars witness of None \<Rightarrow> new_character witness | Some c \<Rightarrow> c)
      in chars(witness \<mapsto>
           (if ev_id ev \<in> set (known_events c) then c
            else c\<lparr>known_events := known_events c @ [ev_id ev]\<rparr>)))"

definition update_from_event ::
  "int \<Rightarrow> (string \<rightharpoonup> character_state) \<Rightarrow> event \<Rightarrow> (string \<rightharpoonup> character_state)" where
  "update_from_event now chars ev =
     foldl (add_witness ev) (foldl (apply_emotion now ev) chars (ev_emotional_impact ev))
       (ev_witnesses ev)"

definition updateCharacterStatesFromEvents ::
  "int \<Rightarrow> event list \<Rightarrow> (string \<rightharpoonup> character_state) \<Rightarrow> (string \<rightharpoonup> character_state)" where
  "updateCharacterStatesFromEvents now events chars = foldl (update_from_event now) chars events"

text \<open>
  For a statement about a whole run: the history stored for a character (empty when the
  character is unknown), and the entries the events hold for the character, in the
  order in which the two loops of \<open>updateCharacterStatesFromEvents\<close> reach them.
\<close>

definition history_of :: "(string \<rightharpoonup> character_state) \<Rightarrow> string \<Rightarrow> history_entry list" where
  "history_of chars n = (case chars n of None \<Rightarrow> [] | Some c \<Rightarrow> emotion_history c)"

definition entries_of_event :: "int \<Rightarrow> event \<Rightarrow> string \<Rightarrow> history_entry list" where
  "entries_of_event now ev n =
     map (\<lambda>p. history_entry_of now ev (snd p))
       (filter (\<lambda>p. fst p = n) (ev_emotional_impact ev))"

definition entries_for :: "int \<Rightarrow> event list \<Rightarrow> string \<Rightarrow> history_entry list" where
  "entries_for now evs n = concat (map (\<lambda>ev. entries_of_event now ev n) evs)"

text \<open>Every stored character has at most 50 history entries.\<close>

definition history_bounded :: "(string \<rightharpoonup> character_state) \<Rightarrow> bool" where
  "history_bounded chars \<longleftrightarrow>
     (\<forall>n c. chars n = Some c \<longrightarrow> length (emotion_history c) \<le> 50)"

subsection \<open>Secret knowledge: the POV filter\<close>

text \<open>
  A stored memory with the fields the filter reads, typed as the module documents them
  (\<open>is_secret: boolean\<close>, \<open>known_by: string[]\<close>, \<open>null\<close> when the memory is not secret).
\<close>

record memory =
  mem_id :: string
  summary :: string
  is_secret :: bool
  known_by :: "string list option"

text \<open>
  \<open>filterMemoriesByKnowledge\<close>.  The POV character is \<open>None\<close> for \<open>null\<close>; the guard
  \<open>!characterName\<close> also holds for the empty string.  \<open>memory.known_by?.includes(c)\<close> is
  \<open>undefined\<close>, hence falsy, when \<open>known_by\<close> is \<open>null\<close>.
\<close>

definition filterMemoriesByKnowledge :: "memory list \<Rightarrow> string option \<Rightarrow> memory list" where
  "filterMemoriesByKnowledge memories characterName =
     (case characterName of
        None \<Rightarrow> memories
      | Some c \<Rightarrow>
          if c = [] then memories
          else filter (\<lambda>m. if \<not> is_secret m then True
                           else (case known_by m of None \<Rightarrow> False | Some ks \<Rightarrow> c \<in> set ks))
                 memories)"

text \<open>The secret memory of the scenario: known to Alice only.\<close>

definition alice_secret :: memory where
  "alice_secret =
     \<lparr> mem_id = ''m1'', summary = ''Alice hid the letter'', is_secret = True,
       known_by = Some [''Alice''] \<rparr>"

text \<open>
  Example data: Alice with a full history of 50 entries, stamped 1 to 50, and an event
  that moves her.
\<close>

definition calm_event :: event where
  "calm_event =
     \<lparr> ev_id = ''e0'', ev_message_ids = [1, 2], ev_event_type = ''action'',
       ev_emotional_tone = [], ev_emotional_valence = 0,
       ev_emotional_impact = [(''Alice'', ''calm'')], ev_witnesses = [''Alice''] \<rparr>"

definition joy_event :: event where
  "joy_event =
     \<lparr> ev_id = ''e1'', ev_message_ids = [3, 4], ev_event_type = ''emotion_shift'',
       ev_emotional_tone = [''warm''], ev_emotional_valence = 1,
       ev_emotional_impact = [(''Alice'', ''joy'')], ev_witnesses = [''Alice'', ''Bob''] \<rparr>"

definition alice_full :: "string \<rightharpoonup> character_state" where
  "alice_full =
     [''Alice'' \<mapsto>
        (new_character ''Alice'')
          \<lparr>emotion_history :=
             map (\<lambda>t. history_entry_of (int t) calm_event ''calm'') [1 ..< 51]\<rparr>]"

subsection \<open>Auto-hide\<close>

text \<open>
  A chat message with the fields the module reads.  \<open>is_system\<close> is the visibility flag
  (absent counts as \<open>false\<close>); \<open>is_user\<close> and \<open>msg_name\<close> are \<open>None\<close> when the property
  is \<open>undefined\<close>.
\<close>

record message =
  is_system :: bool
  is_user :: "bool option"
  msg_name :: "string option"
  mes :: string

text \<open>The extension's settings; an unset threshold is \<open>0\<close> (both are falsy).\<close>

record settings =
  autoHideEnabled :: bool
  autoHideThreshold :: int

text \<open>\<open>const threshold = settings.autoHideThreshold || 50\<close>.\<close>

definition threshold_of :: "settings \<Rightarrow> int" where
  "threshold_of s = (if autoHideThreshold s = 0 then 50 else autoHideThreshold s)"

text \<open>
  \<open>visibleMessages\<close>, by the original indices it records: the indices of the messages
  whose flag is not set, in chat order.
\<close>

definition visible_indices :: "message list \<Rightarrow> nat list" where
  "visible_indices chat = filter (\<lambda>i. \<not> is_system (chat ! i)) [0..<length chat]"

text \<open>\<open>chat[msgIdx].is_system = true\<close>.\<close>

definition hide_at :: "message list \<Rightarrow> nat \<Rightarrow> message list" where
  "hide_at chat msgIdx = chat[msgIdx := (chat ! msgIdx)\<lparr>is_system := True\<rparr>]"

text \<open>
  \<open>autoHideOldMessages\<close> as a function from the chat to the chat it leaves;
  \<open>extractedMessageIds\<close> is the set \<open>getExtractedMessageIds(data)\<close> returns.  The loop
  runs over \<open>i < messagesToHide && i < visibleMessages.length\<close>, that is over the first
  \<open>messagesToHide\<close> entries of \<open>visibleMessages\<close>.
\<close>

definition autoHideOldMessages :: "settings \<Rightarrow> nat set \<Rightarrow> message list \<Rightarrow> message list" where
  "autoHideOldMessages s extractedMessageIds chat =
     (if \<not> autoHideEnabled s then chat
      else
        let threshold = threshold_of s;
            visibleMessages = visible_indices chat
        in if int (length visibleMessages) \<le> threshold then chat
           else
             let toHideCount = int (length visibleMessages) - threshold;
                 pairsToHide = toHideCount div 2;
                 messagesToHide = pairsToHide * 2
             in if messagesToHide \<le> 0 then chat
                else foldl (\<lambda>c msgIdx. if msgIdx \<in> extractedMessageIds
                                          then hide_at c msgIdx else c)
                       chat (take (nat messagesToHide) visibleMessages))"

text \<open>
  \<open>unhideMessagesForBranch\<close>: the chat it leaves and \<open>unhiddenCount\<close>.  A message is
  taken to be auto-hidden when its flag is \<open>true\<close> and \<open>is_user\<close> or \<open>name\<close> is defined.
\<close>

definition isAutoHidden :: "message \<Rightarrow> bool" where
  "isAutoHidden m \<longleftrightarrow> is_user m \<noteq> None \<or> msg_name m \<noteq> None"

definition unhideMessagesForBranch :: "message list \<Rightarrow> nat \<times> message list" where
  "unhideMessagesForBranch chat =
     (length (filter (\<lambda>m. is_system m \<and> isAutoHidden m) chat),
      map (\<lambda>m. if is_system m \<and> isAutoHidden m then m\<lparr>is_system := False\<rparr> else m) chat)"

text \<open>The indices whose flag goes from unset to set, and from set to unset.\<close>

definition newly_hidden :: "message list \<Rightarrow> message list \<Rightarrow> nat list" where
  "newly_hidden chat chat' =
     filter (\<lambda>i. \<not> is_system (chat ! i) \<and> is_system (chat' ! i)) [0..<length chat]"

definition newly_visible :: "message list \<Rightarrow> message list \<Rightarrow> nat list" where
  "newly_visible chat chat' =
     filter (\<lambda>i. is_system (chat ! i) \<and> \<not> is_system (chat' ! i)) [0..<length chat]"

text \<open>
  A run of the two procedures, with a record of the indices auto-hide has set so far.
  \<open>own_changes_only\<close> says that an action clears the flag only of messages in that
  record; \<open>run_ok\<close> says it of every action of a run.
\<close>

record tracked =
  t_chat :: "message list"
  t_auto_hidden :: "nat list"

datatype action = RunAutoHide settings "nat set" | RunUnhide

fun step :: "tracked \<Rightarrow> action \<Rightarrow> tracked" where
  "step t (RunAutoHide s extracted) =
     \<lparr> t_chat = autoHideOldMessages s extracted (t_chat t),
       t_auto_hidden =
         t_auto_hidden t @ newly_hidden (t_chat t) (autoHideOldMessages s extracted (t_chat t)) \<rparr>"
| "step t RunUnhide =
     \<lparr> t_chat = snd (unhideMessagesForBranch (t_chat t)),
       t_auto_hidden = t_auto_hidden t \<rparr>"

definition own_changes_only :: "tracked \<Rightarrow> action \<Rightarrow> bool" where
  "own_changes_only t a \<longleftrightarrow>
     list_all (\<lambda>i. i \<in> set (t_auto_hidden t))
       (newly_visible (t_chat t) (t_chat (step t a)))"

fun run_ok :: "tracked \<Rightarrow> action list \<Rightarrow> bool" where
  "run_ok t [] = True"
| "run_ok t (a # as) = (own_changes_only t a \<and> run_ok (step t a) as)"

text \<open>
  Example chats: a single message of the host that is hidden and carries a name, and
  60 visible messages.
\<close>

definition narrator_chat :: "message list" where
  "narrator_chat =
     [\<lparr> is_system = True, is_user = Some False, msg_name = Some ''Narrator'',
        mes = ''The storm passes.'' \<rparr>]"

definition sixty_visible :: "message list" where
  "sixty_visible =
     replicate 60 \<lparr> is_system = False, is_user = Some True, msg_name = Some ''User'',
                    mes = ''hello'' \<rparr>"

text \<open>
  Every message that is flagged and carries \<open>is_user\<close> or \<open>name\<close> is in the record of
  auto-hidden indices.
\<close>

definition only_own_hidden :: "tracked \<Rightarrow> bool" where
  "only_own_hidden t \<longleftrightarrow>
     list_all (\<lambda>i. is_system (t_chat t ! i) \<and> isAutoHidden (t_chat t ! i)
                    \<longrightarrow> i \<in> set (t_auto_hidden t))
       [0..<length (t_chat t)]"

subsection \<open>Locations\<close>

text \<open>
  JavaScript's \<open>trim\<close> and the regular expressions of \<open>normalizeLocationName\<close>, on
  ASCII: white space is space, tab, line feed, vertical tab, form feed and carriage
  return.
\<close>

definition is_space :: "char \<Rightarrow> bool" where
  "is_space c \<longleftrightarrow> c \<in> set [CHR '' '', CHR 0x09, CHR 0x0A, CHR 0x0B, CHR 0x0C, CHR 0x0D]"

definition is_lower_alnum :: "char \<Rightarrow> bool" where
  "is_lower_alnum c \<longleftrightarrow> c \<in> set ''abcdefghijklmnopqrstuvwxyz0123456789''"

definition trim :: "string \<Rightarrow> string" where
  "trim s = rev (dropWhile is_space (rev (dropWhile is_space s)))"

text \<open>\<open>s.replace(/\s+/g, '_')\<close>: every maximal run of white space becomes one underscore.\<close>

function collapse_spaces :: "string \<Rightarrow> string" where
  "collapse_spaces [] = []"
| "collapse_spaces (c # cs) =
     (if is_space c then CHR ''_'' # collapse_spaces (dropWhile is_space cs)
      else c # collapse_spaces cs)"
  by pat_completeness auto
termination
  by (relation "measure length") (auto simp: length_dropWhile_le le_imp_less_Suc)

text \<open>
  \<open>name.toLowerCase().trim().replace(/[^a-z0-9\s]/g, '').replace(/\s+/g, '_')\<close>.
\<close>

definition normalizeLocationName :: "string \<Rightarrow> string" where
  "normalizeLocationName name =
     collapse_spaces
       (filter (\<lambda>c. is_lower_alnum c \<or> is_space c) (trim (toLowerCase name)))"

record location =
  loc_id :: string
  loc_name :: string
  aliases :: "string list"
  loc_description :: string
  first_visit :: int
  last_visit :: int
  visit_count :: int
  memory_ids :: "string list"
  parent_location :: "string option"
  loc_tags :: "string list"

text \<open>
  The \<open>locations\<close> dictionary of the vault, keyed by normalized name, in insertion order.
  A vault without the dictionary is the empty list: \<open>getLocations\<close> reads it as \<open>{}\<close> and
  \<open>upsertLocation\<close> creates it before it writes.
\<close>

type_synonym locations = "(string \<times> location) list"

text \<open>Assignment to a property of the stored object \<open>locations[k]\<close>.\<close>

fun update_at :: "string \<Rightarrow> (location \<Rightarrow> location) \<Rightarrow> locations \<Rightarrow> locations" where
  "update_at k f [] = []"
| "update_at k f (e # es) =
     (if fst e = k then (fst e, f (snd e)) # es else e # update_at k f es)"

text \<open>\<open>getLocation\<close>: the direct match, else the first location with a matching alias.\<close>

definition getLocation :: "locations \<Rightarrow> string \<Rightarrow> location option" where
  "getLocation locs name =
     (let normalized = normalizeLocationName name
      in case map_of locs normalized of
           Some loc \<Rightarrow> Some loc
         | None \<Rightarrow>
             find (\<lambda>loc. list_ex (\<lambda>a. normalizeLocationName a = normalized) (aliases loc))
               (map snd locs))"

text \<open>
  \<open>upsertLocation(name)\<close> with the default \<open>options = {}\<close>, on a vault that exists:
  the dictionary it leaves and the location it returns; \<open>now\<close> is \<open>Date.now()\<close>.
\<close>

definition upsertLocation :: "int \<Rightarrow> string \<Rightarrow> locations \<Rightarrow> locations \<times> location" where
  "upsertLocation now name locs =
     (let normalized = normalizeLocationName name
      in case map_of locs normalized of
           Some existing \<Rightarrow>
             (update_at normalized
                (\<lambda>l. l\<lparr>last_visit := now, visit_count := visit_count l + 1\<rparr>) locs,
              existing\<lparr>last_visit := now, visit_count := visit_count existing + 1\<rparr>)
         | None \<Rightarrow>
             (let location =
                    \<lparr> loc_id = normalized, loc_name = trim name, aliases = [],
                      loc_description = [], first_visit = now, last_visit = now,
                      visit_count = 1, memory_ids = [], parent_location = None,
                      loc_tags = [] \<rparr>
              in (locs @ [(normalized, location)], location)))"

text \<open>
  \<open>linkMemoryToLocation\<close>: what the call returns or throws, and the vault it leaves
  (\<open>None\<close> is a \<open>null\<close> vault).  When \<open>getLocation\<close> found the location by an alias only,
  \<open>data[LOCATIONS_KEY][normalized]\<close> is \<open>undefined\<close> and reading its \<open>memory_ids\<close> throws.
\<close>

definition linkMemoryToLocation ::
  "int \<Rightarrow> string \<Rightarrow> string \<Rightarrow> locations option \<Rightarrow> (js_error + bool) \<times> locations option" where
  "linkMemoryToLocation now memoryId locationName data =
     (case data of
        None \<Rightarrow> (Inr False, None)
      | Some locs \<Rightarrow>
          (let locs1 = (case getLocation locs locationName of
                          None \<Rightarrow> fst (upsertLocation now locationName locs)
                        | Some location \<Rightarrow> locs);
               normalized = normalizeLocationName locationName
           in (case map_of locs1 normalized of
                 None \<Rightarrow> (Inl TypeError, Some locs1)
               | Some entry \<Rightarrow>
                   if memoryId \<in> set (memory_ids entry) then (Inr True, Some locs1)
                   else (Inr True,
                         Some (update_at normalized
                                 (\<lambda>l. l\<lparr>memory_ids := memory_ids l @ [memoryId]\<rparr>)
                                 locs1)))))"

text \<open>No location of the vault lists a memory id twice.\<close>

definition no_duplicate_links :: "locations option \<Rightarrow> bool" where
  "no_duplicate_links data \<longleftrightarrow>
     (case data of
        None \<Rightarrow> True
      | Some locs \<Rightarrow> list_all (\<lambda>e. distinct (memory_ids (snd e))) locs)"

subsection \<open>JavaScript number conversion\<close>

text \<open>
  \<open>Math.max\<close> and \<open>Math.min\<close> of two numbers: \<open>NaN\<close> if either is \<open>NaN\<close>.
\<close>

fun js_le :: "jsnum \<Rightarrow> jsnum \<Rightarrow> bool" where
  "js_le NaN _ = False"
| "js_le _ NaN = False"
| "js_le NegInf _ = True"
| "js_le _ PosInf = True"
| "js_le (Fin a) (Fin b) = (a \<le> b)"
| "js_le (Fin a) NegInf = False"
| "js_le PosInf (Fin b) = False"
| "js_le PosInf NegInf = False"

definition Math_max :: "jsnum \<Rightarrow> jsnum \<Rightarrow> jsnum" where
  "Math_max a b = (if a = NaN \<or> b = NaN then NaN else if js_le a b then b else a)"

definition Math_min :: "jsnum \<Rightarrow> jsnum \<Rightarrow> jsnum" where
  "Math_min a b = (if a = NaN \<or> b = NaN then NaN else if js_le a b then a else b)"

text \<open>
  The double nearest to a real: round to nearest with 53 significant bits, ties to the
  even significand, subnormal below \<open>2^-1022\<close>, and \<open>Infinity\<close> when the rounded
  magnitude reaches \<open>2^1024\<close>.
\<close>

definition round_half_even :: "real \<Rightarrow> int" where
  "round_half_even y =
     (let f = \<lfloor>y\<rfloor>; d = y - of_int f
      in if d < 1 / 2 then f else if 1 / 2 < d then f + 1 else if even f then f else f + 1)"

definition to_double :: "real \<Rightarrow> jsnum" where
  "to_double x =
     (if x = 0 then Fin 0
      else
        let e = max \<lfloor>log 2 \<bar>x\<bar>\<rfloor> (- 1022);
            ulp = 2 powr (of_int e - 52);
            r = ulp * of_int (round_half_even (x / ulp))
        in if 2 ^ 1024 \<le> \<bar>r\<bar> then (if 0 < x then PosInf else NegInf) else Fin r)"

text \<open>Addition and multiplication of two doubles: the exact result, rounded.\<close>

fun js_add :: "jsnum \<Rightarrow> jsnum \<Rightarrow> jsnum" where
  "js_add (Fin a) (Fin b) = to_double (a + b)"
| "js_add NaN _ = NaN"
| "js_add _ NaN = NaN"
| "js_add PosInf NegInf = NaN"
| "js_add NegInf PosInf = NaN"
| "js_add PosInf _ = PosInf"
| "js_add _ PosInf = PosInf"
| "js_add NegInf _ = NegInf"
| "js_add _ NegInf = NegInf"

definition js_neg :: "jsnum \<Rightarrow> jsnum" where
  "js_neg a = (case a of NaN \<Rightarrow> NaN | NegInf \<Rightarrow> PosInf | PosInf \<Rightarrow> NegInf | Fin r \<Rightarrow> Fin (- r))"

fun js_mul :: "jsnum \<Rightarrow> jsnum \<Rightarrow> jsnum" where
  "js_mul (Fin a) (Fin b) = to_double (a * b)"
| "js_mul NaN _ = NaN"
| "js_mul _ NaN = NaN"
| "js_mul PosInf (Fin b) = (if b = 0 then NaN else if 0 < b then PosInf else NegInf)"
| "js_mul NegInf (Fin b) = (if b = 0 then NaN else if 0 < b then NegInf else PosInf)"
| "js_mul (Fin a) PosInf = (if a = 0 then NaN else if 0 < a then PosInf else NegInf)"
| "js_mul (Fin a) NegInf = (if a = 0 then NaN else if 0 < a then NegInf else PosInf)"
| "js_mul PosInf PosInf = PosInf"
| "js_mul NegInf NegInf = PosInf"
| "js_mul PosInf NegInf = NegInf"
| "js_mul NegInf PosInf = NegInf"

text \<open>
  \<open>StringToNumber\<close>: the text is trimmed; the empty text is \<open>0\<close>; a hexadecimal, octal
  or binary integer with its prefix, or a decimal literal with an optional sign,
  fraction and exponent, or \<open>Infinity\<close> with an optional sign, is its value rounded to
  a double; anything else is \<open>NaN\<close>.
\<close>

definition digit_value :: "char \<Rightarrow> nat option" where
  "digit_value c =
     map_of (zip ''0123456789abcdef'' [0 ..< 16] @ zip ''ABCDEF'' [10 ..< 16]) c"

definition is_digit :: "nat \<Rightarrow> char \<Rightarrow> bool" where
  "is_digit base c = (case digit_value c of None \<Rightarrow> False | Some d \<Rightarrow> d < base)"

definition digits_value :: "nat \<Rightarrow> string \<Rightarrow> nat" where
  "digits_value base s = foldl (\<lambda>acc c. acc * base + the (digit_value c)) 0 s"

text \<open>A non-empty run of digits of the base, and nothing else.\<close>

definition integer_literal :: "nat \<Rightarrow> string \<Rightarrow> jsnum" where
  "integer_literal base s =
     (if s \<noteq> [] \<and> list_all (is_digit base) s then to_double (real (digits_value base s))
      else NaN)"

text \<open>The exponent part after \<open>e\<close> or \<open>E\<close>: the power of ten, \<open>None\<close> when malformed.\<close>

definition exponent_part :: "string \<Rightarrow> real option" where
  "exponent_part s =
     (let neg = (s \<noteq> [] \<and> hd s = CHR ''-'');
          ds = (if s \<noteq> [] \<and> (hd s = CHR ''-'' \<or> hd s = CHR ''+'') then tl s else s)
      in if ds \<noteq> [] \<and> list_all (is_digit 10) ds
         then Some (if neg then 1 / 10 ^ digits_value 10 ds else 10 ^ digits_value 10 ds)
         else None)"

definition unsigned_decimal :: "string \<Rightarrow> jsnum" where
  "unsigned_decimal s =
     (if s = ''Infinity'' then PosInf
      else
        let ip = takeWhile (is_digit 10) s;
            r1 = dropWhile (is_digit 10) s;
            dot = (r1 \<noteq> [] \<and> hd r1 = CHR ''.'');
            fp = (if dot then takeWhile (is_digit 10) (tl r1) else []);
            r2 = (if dot then dropWhile (is_digit 10) (tl r1) else r1);
            mantissa = real (digits_value 10 ip) + real (digits_value 10 fp) / 10 ^ length fp
        in if ip = [] \<and> fp = [] then NaN
           else if r2 = [] then to_double mantissa
           else if hd r2 = CHR ''e'' \<or> hd r2 = CHR ''E''
           then (case exponent_part (tl r2) of
                   None \<Rightarrow> NaN
                 | Some p \<Rightarrow> to_double (mantissa * p))
           else NaN)"

definition StringToNumber :: "string \<Rightarrow> jsnum" where
  "StringToNumber s =
     (let t = trim s
      in if t = [] then Fin 0
         else if take 2 t = ''0x'' \<or> take 2 t = ''0X'' then integer_literal 16 (drop 2 t)
         else if take 2 t = ''0o'' \<or> take 2 t = ''0O'' then integer_literal 8 (drop 2 t)
         else if take 2 t = ''0b'' \<or> take 2 t = ''0B'' then integer_literal 2 (drop 2 t)
         else if hd t = CHR ''-'' then js_neg (unsigned_decimal (tl t))
         else if hd t = CHR ''+'' then unsigned_decimal (tl t)
         else unsigned_decimal t)"

text \<open>
  Converting a parsed object to a primitive throws when it has an own \<open>toString\<close>
  property (a parsed value is never callable, and the inherited \<open>valueOf\<close> returns the
  object); an array joins its elements, so it throws when an element does.
\<close>

fun to_primitive_throws :: "json \<Rightarrow> bool" where
  "to_primitive_throws (JObj kvs) = (''toString'' \<in> fst ` set kvs)"
| "to_primitive_throws (JArr xs) = list_ex to_primitive_throws xs"
| "to_primitive_throws _ = False"

text \<open>
  \<open>ToNumber\<close> of a parsed value, as \<open>Math.max\<close> applies it.  An object without own
  \<open>toString\<close> is the text \<open>[object Object]\<close>, hence \<open>NaN\<close>.  An array is the text of its
  elements joined by commas: \<open>[]\<close> is the empty text; \<open>[x]\<close> is the text of \<open>x\<close>, which
  reads back as the number \<open>x\<close> when \<open>x\<close> is a number and is empty when \<open>x\<close> is \<open>null\<close>; a
  longer array has a comma in its text.
\<close>

fun ToNumber :: "json \<Rightarrow> js_error + jsnum" where
  "ToNumber JNull = Inr (Fin 0)"
| "ToNumber (JBool b) = Inr (Fin (if b then 1 else 0))"
| "ToNumber (JNum r) = Inr (Fin r)"
| "ToNumber (JStr s) = Inr (StringToNumber s)"
| "ToNumber (JObj kvs) = (if ''toString'' \<in> fst ` set kvs then Inl TypeError else Inr NaN)"
| "ToNumber (JArr []) = Inr (Fin 0)"
| "ToNumber (JArr [JBool b]) = Inr NaN"
| "ToNumber (JArr [x]) = ToNumber x"
| "ToNumber (JArr (x # y # zs)) =
     (if list_ex to_primitive_throws (x # y # zs) then Inl TypeError else Inr NaN)"

subsection \<open>The extraction parser\<close>

text \<open>
  Modelled from the spec: \<open>safeParseJSON\<close> (imported from \<open>utils.js\<close>, which is not among
  the sources).  The spec says the extraction output "is expected JSON: either a single
  event object or an array; unparseable output yields zero events without throwing".
  So \<open>safeParseJSON\<close> returns the parsed value of a text that is JSON and \<open>null\<close>, without
  throwing, for any other text.  The JSON grammar is the parameter \<open>parse\<close>
  (\<open>None\<close>: the text is not JSON).
\<close>

definition safeParseJSON :: "(string \<Rightarrow> json option) \<Rightarrow> string \<Rightarrow> json" where
  "safeParseJSON parse input = (case parse input of None \<Rightarrow> JNull | Some v \<Rightarrow> v)"

text \<open>
  A source message; its \<open>id\<close> is taken to be an integer below \<open>2^53\<close> in magnitude,
  which is a double.
\<close>

record source_message =
  msg_id :: int
  msg_text :: string

text \<open>
  The object the \<open>map\<close> callback of \<open>parseExtractionResult\<close> builds.  Properties the
  callback passes through keep the type of the parsed value; \<open>x_rest\<close> holds the other
  own properties of an event object, copied by the spread (the index properties the
  spread copies from an array or a string are left out).
\<close>

record extracted_event =
  x_id :: json
  x_rest :: "(string \<times> json) list"
  x_message_ids :: "int list"
  x_sequence :: jsnum
  x_created_at :: int
  x_batch_id :: "string option"
  x_characters_involved :: json
  x_witnesses :: json
  x_location :: json
  x_is_secret :: json
  x_known_by :: json
  x_importance :: jsnum
  x_emotional_tone :: json
  x_emotional_valence :: real
  x_emotional_impact :: json
  x_relationship_impact :: json
  x_promise :: json
  x_goal :: json
  x_skill :: json
  x_pinned :: bool

text \<open>
  \<open>event.k\<close> for an event that is not \<open>null\<close> and one of the property names the callback
  reads: only an object has such a property.
\<close>

definition field :: "json \<Rightarrow> string \<Rightarrow> json option" where
  "field event k = (case event of JObj kvs \<Rightarrow> map_of kvs k | _ \<Rightarrow> None)"

text \<open>\<open>a || b\<close>, with \<open>None\<close> for \<open>undefined\<close>.\<close>

definition or_else :: "json option \<Rightarrow> json \<Rightarrow> json" where
  "or_else a b = (case a of None \<Rightarrow> b | Some v \<Rightarrow> if truthy v then v else b)"

text \<open>The keys the object literal writes after the spread.\<close>

definition written_keys :: "string list" where
  "written_keys =
     [''message_ids'', ''sequence'', ''created_at'', ''batch_id'', ''characters_involved'',
      ''witnesses'', ''location'', ''is_secret'', ''known_by'', ''importance'',
      ''emotional_tone'', ''emotional_valence'', ''emotional_impact'',
      ''relationship_impact'', ''promise'', ''goal'', ''skill'', ''pinned'']"

text \<open>\<open>Math.min(...messageIds)\<close>: \<open>Infinity\<close> for no argument.\<close>

fun Math_min_list :: "int list \<Rightarrow> jsnum" where
  "Math_min_list [] = PosInf"
| "Math_min_list (x # xs) = Fin (real_of_int (fold min xs x))"

text \<open>
  The callback \<open>(event, index) => ({ ... })\<close>.  \<open>gen index\<close> is what \<open>generateId()\<close> returns
  in this call and \<open>now\<close> is \<open>Date.now()\<close>.  Reading a property of \<open>null\<close> throws, and so
  may the conversion of \<open>event.importance || 3\<close> to a number inside \<open>Math.max\<close>.
\<close>

definition enrich_event ::
  "(nat \<Rightarrow> string) \<Rightarrow> int \<Rightarrow> int list \<Rightarrow> jsnum \<Rightarrow> string option \<Rightarrow> json \<Rightarrow> nat
   \<Rightarrow> js_error + extracted_event" where
  "enrich_event gen now messageIds minMessageId batchId event index =
     (if event = JNull then Inl TypeError
      else
        case ToNumber (or_else (field event ''importance'') (JNum 3)) of
          Inl err \<Rightarrow> Inl err
        | Inr importance_number \<Rightarrow>
            Inr \<lparr> x_id = (case field event ''id'' of None \<Rightarrow> JStr (gen index) | Some v \<Rightarrow> v),
                  x_rest = (case event of
                              JObj kvs \<Rightarrow>
                                filter (\<lambda>kv. fst kv \<notin> set (''id'' # written_keys)) kvs
                            | _ \<Rightarrow> []),
                  x_message_ids = messageIds,
                  x_sequence = js_add (js_mul minMessageId (Fin 1000)) (Fin (real index)),
                  x_created_at = now,
                  x_batch_id = batchId,
                  x_characters_involved = or_else (field event ''characters_involved'') (JArr []),
                  x_witnesses =
                    or_else (field event ''witnesses'')
                      (or_else (field event ''characters_involved'') (JArr [])),
                  x_location = or_else (field event ''location'') JNull,
                  x_is_secret = or_else (field event ''is_secret'') (JBool False),
                  x_known_by =
                    (if truthy (or_else (field event ''is_secret'') JNull)
                     then or_else (field event ''known_by'')
                            (or_else (field event ''witnesses'')
                               (or_else (field event ''characters_involved'') (JArr [])))
                     else JNull),
                  x_importance = Math_min (Fin 5) (Math_max (Fin 1) importance_number),
                  x_emotional_tone = or_else (field event ''emotional_tone'') (JArr []),
                  x_emotional_valence =
                    (case number_of (field event ''emotional_valence'') of
                       Some v \<Rightarrow> min 1 (max (- 1) v)
                     | None \<Rightarrow> 0),
                  x_emotional_impact = or_else (field event ''emotional_impact'') (JObj []),
                  x_relationship_impact =
                    or_else (field event ''relationship_impact'') (JObj []),
                  x_promise = or_else (field event ''promise'') JNull,
                  x_goal = or_else (field event ''goal'') JNull,
                  x_skill = or_else (field event ''skill'') JNull,
                  x_pinned = False \<rparr>)"

text \<open>\<open>xs.map(f)\<close> for a callback that may throw: the first exception ends the call.\<close>

fun map_indexed :: "('a \<Rightarrow> nat \<Rightarrow> js_error + 'b) \<Rightarrow> nat \<Rightarrow> 'a list \<Rightarrow> js_error + 'b list" where
  "map_indexed f i [] = Inr []"
| "map_indexed f i (x # xs) =
     (case f x i of
        Inl err \<Rightarrow> Inl err
      | Inr y \<Rightarrow> (case map_indexed f (Suc i) xs of
                    Inl err \<Rightarrow> Inl err
                  | Inr ys \<Rightarrow> Inr (y # ys)))"

text \<open>
  \<open>parseExtractionResult\<close>.  The parameters \<open>characterName\<close> and \<open>userName\<close> are not
  read by the function and are left out.
\<close>

definition parseExtractionResult ::
  "(string \<Rightarrow> json option) \<Rightarrow> (nat \<Rightarrow> string) \<Rightarrow> int \<Rightarrow> string \<Rightarrow> source_message list
   \<Rightarrow> string option \<Rightarrow> js_error + extracted_event list" where
  "parseExtractionResult parse gen now jsonString messages batchId =
     (let parsed = safeParseJSON parse jsonString
      in if \<not> truthy parsed then Inr []
         else
           let events = (case parsed of JArr xs \<Rightarrow> xs | _ \<Rightarrow> [parsed]);
               messageIds = map msg_id messages;
               minMessageId = Math_min_list messageIds
           in map_indexed (enrich_event gen now messageIds minMessageId batchId) 0 events)"

text \<open>
  An event object whose \<open>importance\<close>, if it has one, is \<open>null\<close>, a boolean, a number or a
  string.
\<close>

definition plain_event :: "json \<Rightarrow> bool" where
  "plain_event e =
     (case e of
        JObj kvs \<Rightarrow>
          (case map_of kvs ''importance'' of
             Some (JObj _) \<Rightarrow> False
           | Some (JArr _) \<Rightarrow> False
           | _ \<Rightarrow> True)
      | _ \<Rightarrow> False)"

text \<open>Example data: an event that rates its importance in words, a JSON reader
  for five texts, and two source messages.\<close>

definition worded_event :: json where
  "worded_event = JObj [(''summary'', JStr ''They argue''), (''importance'', JStr ''high'')]"

definition example_reader :: "string \<Rightarrow> json option" where
  "example_reader s =
     (if s = ''{}'' then Some (JObj [])
      else if s = ''[{},{}]'' then Some (JArr [JObj [], JObj []])
      else if s = ''[null]'' then Some (JArr [JNull])
      else if s = ''[{},null]'' then Some (JArr [JObj [], JNull])
      else if s = ''null'' then Some JNull
      else None)"

definition example_messages :: "source_message list" where
  "example_messages = [\<lparr>msg_id = 7, msg_text = ''hello''\<rparr>, \<lparr>msg_id = 5, msg_text = ''hi''\<rparr>]"

text \<open>Three more batches: messages 5 and 6, messages 5 and 9, and message 6 alone.\<close>

definition batch_5_6 :: "source_message list" where
  "batch_5_6 = [\<lparr>msg_id = 5, msg_text = ''a''\<rparr>, \<lparr>msg_id = 6, msg_text = ''b''\<rparr>]"

definition batch_5_9 :: "source_message list" where
  "batch_5_9 = [\<lparr>msg_id = 5, msg_text = ''a''\<rparr>, \<lparr>msg_id = 9, msg_text = ''c''\<rparr>]"

definition batch_6 :: "source_message list" where
  "batch_6 = [\<lparr>msg_id = 6, msg_text = ''b''\<rparr>]"

text \<open>A batch of one late message: its id times 1000 is above \<open>2^53\<close>.\<close>

definition batch_late :: "source_message list" where
  "batch_late = [\<lparr>msg_id = 9007199254741, msg_text = ''z''\<rparr>]"

section \<open>Properties\<close>

subsection \<open>Relationship dimensions\<close>

lemma add_clamped_range:
  "0 \<le> x \<Longrightarrow> x \<le> 10 \<Longrightarrow> 0 \<le> add_clamped v x \<and> add_clamped v x \<le> 10"
  by (simp add: add_clamped_def clamp_def split: option.split)

lemma structured_in_range:
  "dims_in_range r \<Longrightarrow> dims_in_range (applyStructuredImpact r kvs)"
  unfolding applyStructuredImpact_def dims_in_range_def
  by (simp add: add_clamped_range)

lemma legacy_steps_range:
  assumes "0 \<le> x" "x \<le> 10"
  shows "0 \<le> legacy_trust l x \<and> legacy_trust l x \<le> 10"
    and "0 \<le> legacy_tension l x \<and> legacy_tension l x \<le> 10"
    and "0 \<le> legacy_respect l x \<and> legacy_respect l x \<le> 10"
    and "0 \<le> legacy_attraction l x \<and> legacy_attraction l x \<le> 10"
    and "0 \<le> legacy_fear l x \<and> legacy_fear l x \<le> 10"
    and "0 \<le> legacy_loyalty l x \<and> legacy_loyalty l x \<le> 10"
  using assms
  by (simp_all add: legacy_trust_def legacy_tension_def legacy_respect_def
        legacy_attraction_def legacy_fear_def legacy_loyalty_def)

lemma legacy_in_range:
  "dims_in_range r \<Longrightarrow> dims_in_range (applyLegacyImpact r s)"
  unfolding applyLegacyImpact_def Let_def dims_in_range_def
  by (simp add: legacy_steps_range)

lemma impact_in_range: "dims_in_range r \<Longrightarrow> dims_in_range (applyImpact r i)"
  by (cases i) (simp_all add: structured_in_range legacy_in_range)

lemma new_in_range: "dims_in_range (new_relationship a b)"
  by (simp add: dims_in_range_def new_relationship_def)

lemma lower_trust_deepens:
  "toLowerCase ''Trust deepens between them'' = ''trust deepens between them''"
  by (simp add: toLowerCase_def lower_char_def)

text \<open>
  Claim C1.  A relationship as \<open>updateRelationshipsFromEvents\<close> creates it has its seven
  dimensions in \<open>[0,10]\<close>, and they are in \<open>[0,10]\<close> after any sequence of structured and
  legacy impacts; the same holds from any relationship whose dimensions are in range.
  Since the sequence is arbitrary, this covers the state after every single update.
\<close>

theorem dims_in_range_after_impacts:
  "dims_in_range (foldl applyImpact (new_relationship a b) imps) \<and>
   (dims_in_range r \<longrightarrow> dims_in_range (foldl applyImpact r imps))"
proof -
  have step: "dims_in_range (foldl applyImpact x is)" if "dims_in_range x" for x "is"
    using that
  proof (induction "is" arbitrary: x)
    case Nil
    then show ?case by simp
  next
    case (Cons i "is")
    from Cons.prems have "dims_in_range (applyImpact x i)" by (rule impact_in_range)
    then have "dims_in_range (foldl applyImpact (applyImpact x i) is)" by (rule Cons.IH)
    then show ?case by simp
  qed
  have "dims_in_range (new_relationship a b)" by (rule new_in_range)
  then have "dims_in_range (foldl applyImpact (new_relationship a b) imps)" by (rule step)
  moreover have "dims_in_range r \<longrightarrow> dims_in_range (foldl applyImpact r imps)"
    using step by blast
  ultimately show ?thesis by blast
qed

theorem dims_in_range_after_impacts_witness:
  "dims_in_range (new_relationship ''Alice'' ''Bob'') \<and>
   dims_in_range (foldl applyImpact (new_relationship ''Alice'' ''Bob'')
     [Legacy ''Trust deepens between them'',
      Structured [(''trust'', JNum 100), (''fear'', JNum (- 3)), (''familiarity'', JStr ''x'')]])"
proof -
  have h: "dims_in_range (new_relationship ''Alice'' ''Bob'')"
    by (simp add: dims_in_range_def new_relationship_def)
  from h dims_in_range_after_impacts
         [of "''Alice''" "''Bob''"
             "[Legacy ''Trust deepens between them'',
               Structured [(''trust'', JNum 100), (''fear'', JNum (- 3)),
                           (''familiarity'', JStr ''x'')]]"
             "new_relationship ''Alice'' ''Bob''"]
  show ?thesis by blast
qed

text \<open>
  Claim C4.  \<open>applyLegacyImpact\<close> sets familiarity to \<open>min(10, familiarity + 1)\<close> whatever
  the string is; \<open>applyStructuredImpact\<close> leaves familiarity as it is unless the impact
  has a \<open>familiarity\<close> property that is a number; and the legacy impact
  \<open>"Trust deepens between them"\<close> takes a new relationship from trust 5 and familiarity 1
  to trust 6 and familiarity 2.
\<close>

theorem familiarity_legacy_vs_structured:
  "familiarity_level (applyLegacyImpact rel s) = min 10 (familiarity_level rel + 1) \<and>
   (number_of (get_prop impact ''familiarity'') = None \<longrightarrow>
      familiarity_level (applyStructuredImpact rel impact) = familiarity_level rel) \<and>
   trust_level (new_relationship a b) = 5 \<and>
   familiarity_level (new_relationship a b) = 1 \<and>
   trust_level (applyLegacyImpact (new_relationship a b) ''Trust deepens between them'') = 6 \<and>
   familiarity_level
     (applyLegacyImpact (new_relationship a b) ''Trust deepens between them'') = 2"
proof -
  have "familiarity_level (applyLegacyImpact rel s) = min 10 (familiarity_level rel + 1)"
    by (simp add: applyLegacyImpact_def Let_def)
  moreover have "number_of (get_prop impact ''familiarity'') = None \<longrightarrow>
      familiarity_level (applyStructuredImpact rel impact) = familiarity_level rel"
    by (simp add: applyStructuredImpact_def add_clamped_def)
  moreover have "trust_level (new_relationship a b) = 5"
    and "familiarity_level (new_relationship a b) = 1"
    by (simp_all add: new_relationship_def)
  moreover have
    "trust_level (applyLegacyImpact (new_relationship a b) ''Trust deepens between them'') = 6"
    by (simp add: applyLegacyImpact_def Let_def lower_trust_deepens legacy_trust_def
          new_relationship_def)
  moreover have
    "familiarity_level
       (applyLegacyImpact (new_relationship a b) ''Trust deepens between them'') = 2"
    by (simp add: applyLegacyImpact_def Let_def new_relationship_def)
  ultimately show ?thesis by blast
qed

theorem familiarity_legacy_vs_structured_witness:
  "number_of (get_prop [(''trust'', JNum 2), (''familiarity'', JStr ''closer'')] ''familiarity'')
     = None \<and>
   familiarity_level (applyStructuredImpact (new_relationship ''Alice'' ''Bob'')
     [(''trust'', JNum 2), (''familiarity'', JStr ''closer'')]) = 1 \<and>
   familiarity_level (applyLegacyImpact (new_relationship ''Alice'' ''Bob'') ''they argue'') = 2"
proof -
  have h: "number_of
      (get_prop [(''trust'', JNum 2), (''familiarity'', JStr ''closer'')] ''familiarity'') = None"
    by (simp add: get_prop_def)
  have n: "familiarity_level (new_relationship ''Alice'' ''Bob'') = 1"
    by (simp add: new_relationship_def)
  from h n familiarity_legacy_vs_structured
       [of "new_relationship ''Alice'' ''Bob''" "''they argue''"
           "[(''trust'', JNum 2), (''familiarity'', JStr ''closer'')]" "''Alice''" "''Bob''"]
  show ?thesis by simp
qed


subsection \<open>Emotion history\<close>

lemma apply_emotion_bounded:
  "history_bounded chars \<Longrightarrow> history_bounded (apply_emotion now ev chars p)"
  unfolding history_bounded_def
  by (auto simp: apply_emotion_def Let_def MAX_EMOTION_HISTORY_def slice_last_def
      split: if_splits)

lemma add_witness_bounded:
  "history_bounded chars \<Longrightarrow> history_bounded (add_witness ev chars w)"
  unfolding history_bounded_def
  by (auto simp: add_witness_def Let_def new_character_def split: if_splits option.splits)

lemma foldl_emotion_bounded:
  "history_bounded chars \<Longrightarrow> history_bounded (foldl (apply_emotion now ev) chars ps)"
  by (induction ps arbitrary: chars) (simp_all add: apply_emotion_bounded)

lemma foldl_witness_bounded:
  "history_bounded chars \<Longrightarrow> history_bounded (foldl (add_witness ev) chars ws)"
  by (induction ws arbitrary: chars) (simp_all add: add_witness_bounded)

lemma event_bounded:
  "history_bounded chars \<Longrightarrow> history_bounded (update_from_event now chars ev)"
  by (simp add: update_from_event_def foldl_emotion_bounded foldl_witness_bounded)

lemma update_bounded:
  "history_bounded chars \<Longrightarrow> history_bounded (updateCharacterStatesFromEvents now evs chars)"
  unfolding updateCharacterStatesFromEvents_def
  by (induction evs arbitrary: chars) (simp_all add: event_bounded)

text \<open>Trimming after every push keeps the last 50 of everything pushed.\<close>

lemma slice_last_short: "length xs \<le> n \<Longrightarrow> slice_last n xs = xs"
  by (simp add: slice_last_def)

lemma slice_last_again: "slice_last n (slice_last n xs @ ys) = slice_last n (xs @ ys)"
proof (cases "length xs \<le> n")
  case True
  then show ?thesis by (simp add: slice_last_short)
next
  case False
  then have "slice_last n xs @ ys = drop (length xs - n) (xs @ ys)"
    by (simp add: slice_last_def)
  moreover have "length (xs @ ys) - (length xs - n) - n + (length xs - n) = length (xs @ ys) - n"
    using False by simp
  ultimately show ?thesis
    by (simp add: slice_last_def)
qed

lemma pushes_trimmed:
  "es \<noteq> [] \<Longrightarrow> foldl (\<lambda>h e. slice_last 50 (h @ [e])) h es = slice_last 50 (h @ es)"
proof (induction es arbitrary: h)
  case Nil
  then show ?case by simp
next
  case (Cons e es)
  show ?case
  proof (cases "es = []")
    case True
    then show ?thesis by simp
  next
    case False
    from Cons.IH[OF False, of "slice_last 50 (h @ [e])"]
    show ?thesis by (simp add: slice_last_again)
  qed
qed

lemma apply_emotion_history:
  "history_of (apply_emotion now ev chars p) n =
     (if fst p = n then slice_last 50 (history_of chars n @ [history_entry_of now ev (snd p)])
      else history_of chars n)"
  by (auto simp: history_of_def apply_emotion_def Let_def MAX_EMOTION_HISTORY_def
      new_character_def slice_last_def split: option.splits)

lemma add_witness_history: "history_of (add_witness ev chars w) n = history_of chars n"
  by (auto simp: history_of_def add_witness_def Let_def new_character_def split: option.splits)

lemma foldl_witness_history: "history_of (foldl (add_witness ev) chars ws) n = history_of chars n"
  by (induction ws arbitrary: chars) (simp_all add: add_witness_history)

lemma foldl_emotion_history:
  "history_of (foldl (apply_emotion now ev) chars ps) n =
     foldl (\<lambda>h e. slice_last 50 (h @ [e])) (history_of chars n)
       (map (\<lambda>p. history_entry_of now ev (snd p)) (filter (\<lambda>p. fst p = n) ps))"
  by (induction ps arbitrary: chars) (simp_all add: apply_emotion_history)

lemma event_history:
  "history_of (update_from_event now chars ev) n =
     foldl (\<lambda>h e. slice_last 50 (h @ [e])) (history_of chars n) (entries_of_event now ev n)"
  by (simp add: update_from_event_def foldl_witness_history foldl_emotion_history
      entries_of_event_def)

lemma update_history:
  "history_of (updateCharacterStatesFromEvents now evs chars) n =
     foldl (\<lambda>h e. slice_last 50 (h @ [e])) (history_of chars n) (entries_for now evs n)"
  unfolding updateCharacterStatesFromEvents_def entries_for_def
  by (induction evs arbitrary: chars) (simp_all add: event_history)

text \<open>The current emotion is the emotion of the last pair processed for the character.\<close>

lemma foldl_emotion_other:
  "filter (\<lambda>p. fst p = n) ps = [] \<Longrightarrow> foldl (apply_emotion now ev) chars ps n = chars n"
  by (induction ps arbitrary: chars)
     (auto simp: apply_emotion_def Let_def split: if_splits)

lemma foldl_emotion_current:
  "filter (\<lambda>p. fst p = n) ps \<noteq> [] \<Longrightarrow>
   \<exists>c. foldl (apply_emotion now ev) chars ps n = Some c \<and>
       current_emotion c = snd (last (filter (\<lambda>p. fst p = n) ps))"
proof (induction ps arbitrary: chars rule: rev_induct)
  case Nil
  then show ?case by simp
next
  case (snoc p ps)
  show ?case
  proof (cases "fst p = n")
    case True
    then show ?thesis by (simp add: apply_emotion_def Let_def)
  next
    case False
    with snoc.prems have "filter (\<lambda>p. fst p = n) ps \<noteq> []" by simp
    from snoc.IH[OF this, of chars] False show ?thesis
      by (auto simp: apply_emotion_def Let_def)
  qed
qed

lemma add_witness_current:
  assumes "chars n = Some c"
  shows "\<exists>c1. add_witness ev chars w n = Some c1 \<and> current_emotion c1 = current_emotion c"
proof (cases "n = w")
  case True
  with assms show ?thesis by (simp add: add_witness_def Let_def)
next
  case False
  with assms show ?thesis by (simp add: add_witness_def Let_def)
qed

lemma foldl_witness_current:
  "chars n = Some c \<Longrightarrow>
   \<exists>c'. foldl (add_witness ev) chars ws n = Some c' \<and> current_emotion c' = current_emotion c"
proof (induction ws arbitrary: chars c)
  case Nil
  then show ?case by simp
next
  case (Cons w ws)
  from Cons.prems add_witness_current[of chars n c ev w] obtain c1 where
    c1: "add_witness ev chars w n = Some c1" "current_emotion c1 = current_emotion c"
    by blast
  from Cons.IH[of "add_witness ev chars w" c1] c1 show ?case by simp
qed

lemma event_current_new:
  assumes "entries_of_event now ev n \<noteq> []"
  shows "\<exists>c. update_from_event now chars ev n = Some c \<and>
             current_emotion c = h_emotion (last (entries_of_event now ev n))"
proof -
  from assms have ne: "filter (\<lambda>p. fst p = n) (ev_emotional_impact ev) \<noteq> []"
    by (simp add: entries_of_event_def)
  from foldl_emotion_current[OF ne, of now ev chars] obtain c where
    c: "foldl (apply_emotion now ev) chars (ev_emotional_impact ev) n = Some c"
       "current_emotion c = snd (last (filter (\<lambda>p. fst p = n) (ev_emotional_impact ev)))"
    by blast
  from c(1) c(2) ne
    foldl_witness_current[of "foldl (apply_emotion now ev) chars (ev_emotional_impact ev)" n c
      ev "ev_witnesses ev"]
  show ?thesis
    by (auto simp: update_from_event_def entries_of_event_def last_map history_entry_of_def)
qed

lemma event_current_old:
  assumes "entries_of_event now ev n = []" "chars n = Some c"
  shows "\<exists>c'. update_from_event now chars ev n = Some c' \<and> current_emotion c' = current_emotion c"
proof -
  from assms(1) have "filter (\<lambda>p. fst p = n) (ev_emotional_impact ev) = []"
    by (simp add: entries_of_event_def)
  then have "foldl (apply_emotion now ev) chars (ev_emotional_impact ev) n = Some c"
    using assms(2) by (simp add: foldl_emotion_other)
  with foldl_witness_current[of "foldl (apply_emotion now ev) chars (ev_emotional_impact ev)" n c
      ev "ev_witnesses ev"]
  show ?thesis
    by (simp add: update_from_event_def)
qed

lemma update_current:
  "entries_for now evs n \<noteq> [] \<Longrightarrow>
   \<exists>c. updateCharacterStatesFromEvents now evs chars n = Some c \<and>
       current_emotion c = h_emotion (last (entries_for now evs n))"
proof (induction evs arbitrary: chars rule: rev_induct)
  case Nil
  then show ?case by (simp add: entries_for_def)
next
  case (snoc ev evs)
  have run: "updateCharacterStatesFromEvents now (evs @ [ev]) chars =
             update_from_event now (updateCharacterStatesFromEvents now evs chars) ev"
    by (simp add: updateCharacterStatesFromEvents_def)
  have ent: "entries_for now (evs @ [ev]) n = entries_for now evs n @ entries_of_event now ev n"
    by (simp add: entries_for_def)
  show ?case
  proof (cases "entries_of_event now ev n = []")
    case False
    from event_current_new[OF False] False show ?thesis
      unfolding run ent by simp
  next
    case True
    with snoc.prems ent have "entries_for now evs n \<noteq> []" by simp
    from snoc.IH[OF this, of chars] obtain c where
      c: "updateCharacterStatesFromEvents now evs chars n = Some c"
         "current_emotion c = h_emotion (last (entries_for now evs n))" by blast
    from True c
      event_current_old[of now ev n "updateCharacterStatesFromEvents now evs chars" c]
    show ?thesis
      unfolding run ent by simp
  qed
qed

text \<open>
  Claim C7.  Let \<open>H\<close> be the history stored for character \<open>n\<close> before
  \<open>updateCharacterStatesFromEvents\<close> runs over a list of events (empty when \<open>n\<close> is not
  stored) and \<open>E\<close> the entries the events hold for \<open>n\<close>, in the order in which they are
  processed.  If \<open>E\<close> is not empty, \<open>n\<close> is stored afterwards with the last 50 entries of
  \<open>H\<close> followed by \<open>E\<close>, all of them when they are fewer: at most 50 entries, the ones
  dropped being the oldest; and its \<open>current_emotion\<close> is the emotion of the last pair
  processed for \<open>n\<close>.  If \<open>E\<close> is empty the history of \<open>n\<close> is as before.  So if no stored
  character has more than 50 entries before the run, none has after it, and none has
  after a run from the empty store.  In the witness Alice holds 50 entries stamped 1
  to 50; one event with the pair (Alice, joy) and the witness Bob leaves her with the
  entries stamped 2 to 50 followed by the new one, 50 in all, and the current emotion
  joy; Bob is stored with no history.
\<close>

theorem emotion_history_capped:
  "(entries_for now evs n \<noteq> [] \<longrightarrow>
      (\<exists>c. updateCharacterStatesFromEvents now evs chars n = Some c \<and>
           emotion_history c =
             drop (length (history_of chars n @ entries_for now evs n) - 50)
               (history_of chars n @ entries_for now evs n) \<and>
           length (emotion_history c) \<le> 50 \<and>
           current_emotion c = h_emotion (last (entries_for now evs n)))) \<and>
   (entries_for now evs n = [] \<longrightarrow>
      history_of (updateCharacterStatesFromEvents now evs chars) n = history_of chars n) \<and>
   (history_bounded chars \<longrightarrow>
      history_bounded (updateCharacterStatesFromEvents now evs chars)) \<and>
   history_bounded (updateCharacterStatesFromEvents now evs Map.empty)"
proof -
  have a: "\<exists>c. updateCharacterStatesFromEvents now evs chars n = Some c \<and>
           emotion_history c =
             drop (length (history_of chars n @ entries_for now evs n) - 50)
               (history_of chars n @ entries_for now evs n) \<and>
           length (emotion_history c) \<le> 50 \<and>
           current_emotion c = h_emotion (last (entries_for now evs n))"
    if ne: "entries_for now evs n \<noteq> []"
  proof -
    from update_current[OF ne, of chars] obtain c where
      c: "updateCharacterStatesFromEvents now evs chars n = Some c"
         "current_emotion c = h_emotion (last (entries_for now evs n))" by blast
    from c(1) have "emotion_history c =
        history_of (updateCharacterStatesFromEvents now evs chars) n"
      by (simp add: history_of_def)
    also have "\<dots> = slice_last 50 (history_of chars n @ entries_for now evs n)"
      using ne by (simp add: update_history pushes_trimmed)
    finally have h: "emotion_history c =
        drop (length (history_of chars n @ entries_for now evs n) - 50)
          (history_of chars n @ entries_for now evs n)"
      by (simp add: slice_last_def)
    then have "length (emotion_history c) \<le> 50" by simp
    with c h show ?thesis by blast
  qed
  have b: "history_of (updateCharacterStatesFromEvents now evs chars) n = history_of chars n"
    if "entries_for now evs n = []"
    using that by (simp add: update_history)
  have d: "history_bounded (updateCharacterStatesFromEvents now evs Map.empty)"
    using update_bounded[of Map.empty now evs] by (simp add: history_bounded_def)
  from a b update_bounded[of chars now evs] d show ?thesis by blast
qed


theorem emotion_history_capped_witness:
  "entries_for 99 [joy_event] ''Alice'' \<noteq> [] \<and>
   (\<exists>c. updateCharacterStatesFromEvents 99 [joy_event] alice_full ''Alice'' = Some c \<and>
        emotion_history c =
          map (\<lambda>t. history_entry_of (int t) calm_event ''calm'') [2 ..< 51]
            @ [history_entry_of 99 joy_event ''joy''] \<and>
        length (emotion_history c) = 50 \<and>
        current_emotion c = ''joy'') \<and>
   entries_for 99 [joy_event] ''Bob'' = [] \<and>
   history_of (updateCharacterStatesFromEvents 99 [joy_event] alice_full) ''Bob'' = [] \<and>
   history_bounded alice_full \<and>
   history_bounded (updateCharacterStatesFromEvents 99 [joy_event] alice_full)"
proof -
  have ea: "entries_for 99 [joy_event] ''Alice'' = [history_entry_of 99 joy_event ''joy'']"
    by (simp add: entries_for_def entries_of_event_def joy_event_def)
  have eb: "entries_for 99 [joy_event] ''Bob'' = []"
    by (simp add: entries_for_def entries_of_event_def joy_event_def)
  have ha: "history_of alice_full ''Alice'' =
              map (\<lambda>t. history_entry_of (int t) calm_event ''calm'') [1 ..< 51]"
    by (simp add: history_of_def alice_full_def)
  have hb: "history_of alice_full ''Bob'' = []"
    by (simp add: history_of_def alice_full_def)
  have bd: "history_bounded alice_full"
    by (simp add: history_bounded_def alice_full_def)
  have dr: "drop (length (map (\<lambda>t. history_entry_of (int t) calm_event ''calm'') [1 ..< 51]
                     @ [history_entry_of 99 joy_event ''joy'']) - 50)
              (map (\<lambda>t. history_entry_of (int t) calm_event ''calm'') [1 ..< 51]
                 @ [history_entry_of 99 joy_event ''joy''])
            = map (\<lambda>t. history_entry_of (int t) calm_event ''calm'') [2 ..< 51]
                @ [history_entry_of 99 joy_event ''joy'']"
    by (simp add: drop_map drop_upt numeral_2_eq_2 del: upt_rec_numeral)
  have je: "h_emotion (history_entry_of 99 joy_event ''joy'') = ''joy''"
    by (simp add: history_entry_of_def)
  from ea emotion_history_capped [of 99 "[joy_event]" "''Alice''" alice_full]
  obtain c where c: "updateCharacterStatesFromEvents 99 [joy_event] alice_full ''Alice'' = Some c"
    "emotion_history c =
       drop (length (history_of alice_full ''Alice'' @ [history_entry_of 99 joy_event ''joy'']) - 50)
         (history_of alice_full ''Alice'' @ [history_entry_of 99 joy_event ''joy''])"
    "current_emotion c = h_emotion (last [history_entry_of 99 joy_event ''joy''])"
    by auto
  from c(2) have h: "emotion_history c =
      map (\<lambda>t. history_entry_of (int t) calm_event ''calm'') [2 ..< 51]
        @ [history_entry_of 99 joy_event ''joy'']"
    unfolding ha dr .
  then have l: "length (emotion_history c) = 50" by simp
  from c(3) je have e: "current_emotion c = ''joy''" by simp
  from eb emotion_history_capped [of 99 "[joy_event]" "''Bob''" alice_full] hb
  have b: "history_of (updateCharacterStatesFromEvents 99 [joy_event] alice_full) ''Bob'' = []"
    by simp
  from bd emotion_history_capped [of 99 "[joy_event]" "''Alice''" alice_full]
  have bd': "history_bounded (updateCharacterStatesFromEvents 99 [joy_event] alice_full)"
    by blast
  from ea c(1) h l e eb b bd bd' show ?thesis by (simp del: upt_rec_numeral)
qed

subsection \<open>The POV filter\<close>

text \<open>
  Claim C3, as amended.  With no POV character (\<open>null\<close>) and with the empty name the
  list is returned as it is.  For a non-empty name the result is the sublist, in order,
  of the memories that are not secret or whose \<open>known_by\<close> holds the name.  The secret
  of Alice is dropped for Bob, kept for Alice and kept for \<open>null\<close>.
\<close>

theorem pov_filter:
  "filterMemoriesByKnowledge ms None = ms \<and>
   filterMemoriesByKnowledge ms (Some []) = ms \<and>
   (c \<noteq> [] \<longrightarrow>
      filterMemoriesByKnowledge ms (Some c) =
        filter (\<lambda>m. \<not> is_secret m \<or> (\<exists>ks. known_by m = Some ks \<and> c \<in> set ks)) ms) \<and>
   filterMemoriesByKnowledge [alice_secret] (Some ''Bob'') = [] \<and>
   filterMemoriesByKnowledge [alice_secret] (Some ''Alice'') = [alice_secret] \<and>
   filterMemoriesByKnowledge [alice_secret] None = [alice_secret]"
proof -
  have "c \<noteq> [] \<longrightarrow>
      filterMemoriesByKnowledge ms (Some c) =
        filter (\<lambda>m. \<not> is_secret m \<or> (\<exists>ks. known_by m = Some ks \<and> c \<in> set ks)) ms"
    by (auto simp: filterMemoriesByKnowledge_def split: option.splits intro!: filter_cong)
  moreover have "filterMemoriesByKnowledge [alice_secret] (Some ''Bob'') = []"
    and "filterMemoriesByKnowledge [alice_secret] (Some ''Alice'') = [alice_secret]"
    by (simp_all add: filterMemoriesByKnowledge_def alice_secret_def)
  ultimately show ?thesis
    by (simp add: filterMemoriesByKnowledge_def)
qed

theorem pov_filter_witness:
  "''Bob'' \<noteq> [] \<and>
   filterMemoriesByKnowledge
     [alice_secret, alice_secret\<lparr>mem_id := ''m2'', is_secret := False, known_by := None\<rparr>]
     (Some ''Bob'')
   = [alice_secret\<lparr>mem_id := ''m2'', is_secret := False, known_by := None\<rparr>]"
proof -
  have h: "''Bob'' \<noteq> []" by simp
  from h pov_filter
       [of "[alice_secret,
             alice_secret\<lparr>mem_id := ''m2'', is_secret := False, known_by := None\<rparr>]" "''Bob''"]
  show ?thesis by (simp add: alice_secret_def)
qed

text \<open>
  The claim as stated fails for the empty POV name: the secret of Alice is returned
  although the empty name is not in its \<open>known_by\<close>.
\<close>

theorem pov_filter_counterexample:
  "is_secret alice_secret \<and> known_by alice_secret = Some [''Alice''] \<and>
   [] \<notin> set [''Alice''] \<and>
   alice_secret \<in> set (filterMemoriesByKnowledge [alice_secret] (Some []))"
  by (simp add: filterMemoriesByKnowledge_def alice_secret_def)

subsection \<open>Auto-hide and the visibility flag\<close>


lemma hide_loop_length:
  "length (foldl (\<lambda>c i. if i \<in> ext then hide_at c i else c) chat idxs) = length chat"
  by (induction idxs arbitrary: chat) (simp_all add: hide_at_def)

lemma hide_loop_flag:
  "i < length chat \<Longrightarrow>
   is_system (foldl (\<lambda>c i. if i \<in> ext then hide_at c i else c) chat idxs ! i) =
     (is_system (chat ! i) \<or> (i \<in> set idxs \<and> i \<in> ext))"
proof (induction idxs arbitrary: chat)
  case Nil
  then show ?case by simp
next
  case (Cons j idxs)
  then show ?case
    by (cases "i = j") (auto simp: hide_at_def nth_list_update)
qed

lemma visible_sorted: "sorted (visible_indices chat)" "distinct (visible_indices chat)"
  by (simp_all add: visible_indices_def sorted_wrt_filter)

lemma visible_set: "set (visible_indices chat) = {i. i < length chat \<and> \<not> is_system (chat ! i)}"
  by (auto simp: visible_indices_def)

lemma filter_mem_sorted:
  assumes "sorted xs" "distinct xs" "set xs \<subseteq> {..<n}"
  shows "filter (\<lambda>i. i \<in> set xs) [0..<n] = (xs::nat list)"
proof (rule sorted_distinct_set_unique)
  show "sorted (filter (\<lambda>i. i \<in> set xs) [0..<n])" by (simp add: sorted_wrt_filter)
  show "distinct (filter (\<lambda>i. i \<in> set xs) [0..<n])" by simp
  show "sorted xs" "distinct xs" by fact+
  show "set (filter (\<lambda>i. i \<in> set xs) [0..<n]) = set xs" using assms(3) by auto
qed

lemma newly_hidden_subset:
  "set (newly_hidden chat (autoHideOldMessages s ext chat)) \<subseteq> ext"
  by (auto simp: newly_hidden_def autoHideOldMessages_def Let_def hide_loop_flag)

lemma auto_hide_length: "length (autoHideOldMessages s ext chat) = length chat"
  by (simp add: autoHideOldMessages_def Let_def hide_loop_length)

lemma newly_hidden_all_extracted:
  assumes en: "autoHideEnabled s" and nn: "0 \<le> threshold_of s"
    and big: "threshold_of s < int (length (visible_indices chat))"
    and ext: "set (visible_indices chat) \<subseteq> ext"
  shows "newly_hidden chat (autoHideOldMessages s ext chat) =
           take (nat ((int (length (visible_indices chat)) - threshold_of s) div 2 * 2))
             (visible_indices chat)"
proof -
  let ?v = "visible_indices chat"
  let ?k = "nat ((int (length ?v) - threshold_of s) div 2 * 2)"
  let ?idxs = "take ?k ?v"
  have sub: "set ?idxs \<subseteq> set ?v" by (rule set_take_subset)
  have flag: "is_system (autoHideOldMessages s ext chat ! i) =
                (is_system (chat ! i) \<or> i \<in> set ?idxs)" if "i < length chat" for i
  proof (cases "(int (length ?v) - threshold_of s) div 2 * 2 \<le> 0")
    case True
    then have "?k = 0" by simp
    with True en big show ?thesis
      by (simp add: autoHideOldMessages_def Let_def)
  next
    case False
    with en big that sub ext show ?thesis
      by (auto simp: autoHideOldMessages_def Let_def hide_loop_flag)
  qed
  have "newly_hidden chat (autoHideOldMessages s ext chat) =
          filter (\<lambda>i. i \<in> set ?idxs) [0..<length chat]"
    unfolding newly_hidden_def
  proof (rule filter_cong[OF refl])
    fix i assume "i \<in> set [0..<length chat]"
    then have i: "i < length chat" by simp
    show "(\<not> is_system (chat ! i) \<and> is_system (autoHideOldMessages s ext chat ! i)) =
          (i \<in> set ?idxs)"
      using flag[OF i] sub by (auto simp: visible_set)
  qed
  also have "\<dots> = ?idxs"
  proof (rule filter_mem_sorted)
    show "sorted ?idxs" using visible_sorted(1) by (rule sorted_wrt_take)
    show "distinct ?idxs" using visible_sorted(2) by (rule distinct_take)
    show "set ?idxs \<subseteq> {..<length chat}" using sub by (auto simp: visible_set)
  qed
  finally show ?thesis .
qed

lemma hidden_count:
  assumes "0 \<le> t" "t < int v"
  shows "nat ((int v - t) div 2 * 2) \<le> v"
  using assms by linarith

lemma auto_hide_flag:
  assumes "i < length chat"
  shows "is_system (autoHideOldMessages s ext chat ! i) \<longleftrightarrow>
           is_system (chat ! i) \<or>
           (autoHideEnabled s \<and> threshold_of s < int (length (visible_indices chat)) \<and>
            i \<in> ext \<and>
            i \<in> set (take (nat ((int (length (visible_indices chat)) - threshold_of s) div 2 * 2))
                         (visible_indices chat)))"
proof (cases "(int (length (visible_indices chat)) - threshold_of s) div 2 * 2 \<le> 0")
  case True
  then have "nat ((int (length (visible_indices chat)) - threshold_of s) div 2 * 2) = 0" by simp
  with True show ?thesis
    by (simp add: autoHideOldMessages_def Let_def)
next
  case False
  with assms show ?thesis
    by (auto simp: autoHideOldMessages_def Let_def hide_loop_flag)
qed

lemma auto_hide_never_clears: "newly_visible chat (autoHideOldMessages s ext chat) = []"
  by (auto simp: newly_visible_def filter_empty_conv auto_hide_flag)

lemma unhide_never_sets: "newly_hidden chat (snd (unhideMessagesForBranch chat)) = []"
  by (auto simp: newly_hidden_def filter_empty_conv unhideMessagesForBranch_def)

lemma unhide_clears:
  "newly_visible chat (snd (unhideMessagesForBranch chat)) =
     filter (\<lambda>i. is_system (chat ! i) \<and> isAutoHidden (chat ! i)) [0..<length chat]"
  unfolding newly_visible_def unhideMessagesForBranch_def
  by (rule filter_cong) auto

lemma unhide_count:
  "fst (unhideMessagesForBranch chat) =
     length (newly_visible chat (snd (unhideMessagesForBranch chat)))"
proof -
  have "filter (\<lambda>i. is_system (chat ! i) \<and> isAutoHidden (chat ! i)) [0..<length chat]
        = filter (\<lambda>i. (\<lambda>m. is_system m \<and> isAutoHidden m) (chat ! i)) [0..<length chat]" by simp
  have "length (filter (\<lambda>m. is_system m \<and> isAutoHidden m) chat) =
        length (filter (\<lambda>m. is_system m \<and> isAutoHidden m) (map ((!) chat) [0..<length chat]))"
    by (simp add: map_nth)
  also have "\<dots> = length (filter (\<lambda>i. is_system (chat ! i) \<and> isAutoHidden (chat ! i)) [0..<length chat])"
    by (simp add: filter_map comp_def)
  finally show ?thesis unfolding unhide_clears by (simp add: unhideMessagesForBranch_def)
qed

lemma hide_loop_kind:
  "i < length chat \<Longrightarrow>
   isAutoHidden (foldl (\<lambda>c i. if i \<in> ext then hide_at c i else c) chat idxs ! i) =
     isAutoHidden (chat ! i)"
proof (induction idxs arbitrary: chat)
  case Nil
  then show ?case by simp
next
  case (Cons j idxs)
  then show ?case
    by (cases "i = j") (auto simp: hide_at_def nth_list_update isAutoHidden_def)
qed

lemma auto_hide_kind:
  "i < length chat \<Longrightarrow>
   isAutoHidden (autoHideOldMessages s ext chat ! i) = isAutoHidden (chat ! i)"
  by (simp add: autoHideOldMessages_def Let_def hide_loop_kind)

lemma only_own_hidden_step:
  assumes "only_own_hidden t"
  shows "only_own_hidden (step t a)"
proof (cases a)
  case (RunAutoHide s ext)
  show ?thesis
    unfolding only_own_hidden_def list_all_iff
  proof
    fix i assume "i \<in> set [0..<length (t_chat (step t a))]"
    then have i: "i < length (t_chat t)"
      by (simp add: RunAutoHide auto_hide_length)
    show "is_system (t_chat (step t a) ! i) \<and> isAutoHidden (t_chat (step t a) ! i)
            \<longrightarrow> i \<in> set (t_auto_hidden (step t a))"
    proof (cases "is_system (t_chat t ! i)")
      case True
      with assms i show ?thesis
        by (auto simp: RunAutoHide only_own_hidden_def list_all_iff auto_hide_kind)
    next
      case False
      with i show ?thesis
        by (auto simp: RunAutoHide newly_hidden_def)
    qed
  qed
next
  case RunUnhide
  show ?thesis
    unfolding only_own_hidden_def list_all_iff
    by (auto simp: RunUnhide unhideMessagesForBranch_def isAutoHidden_def)
qed

lemma only_own_hidden_changes:
  assumes "only_own_hidden t"
  shows "own_changes_only t a"
proof (cases a)
  case (RunAutoHide s ext)
  then show ?thesis
    by (simp add: own_changes_only_def auto_hide_never_clears)
next
  case RunUnhide
  with assms show ?thesis
    by (auto simp: own_changes_only_def unhide_clears only_own_hidden_def list_all_iff)
qed

lemma only_own_hidden_run: "only_own_hidden t \<Longrightarrow> run_ok t acts"
  by (induction acts arbitrary: t)
     (simp_all add: only_own_hidden_changes only_own_hidden_step)

lemma auto_hide_sets:
  "set (newly_hidden chat (autoHideOldMessages s ext chat)) \<subseteq>
     ext \<inter> set (take (nat ((int (length (visible_indices chat)) - threshold_of s) div 2 * 2))
                   (visible_indices chat))"
  by (auto simp: newly_hidden_def auto_hide_flag)

lemma newly_hidden_filter:
  assumes en: "autoHideEnabled s"
    and big: "threshold_of s < int (length (visible_indices chat))"
  shows "newly_hidden chat (autoHideOldMessages s ext chat) =
           filter (\<lambda>i. i \<in> ext)
             (take (nat ((int (length (visible_indices chat)) - threshold_of s) div 2 * 2))
                (visible_indices chat))"
proof -
  let ?v = "visible_indices chat"
  let ?k = "nat ((int (length ?v) - threshold_of s) div 2 * 2)"
  let ?idxs = "filter (\<lambda>i. i \<in> ext) (take ?k ?v)"
  have sub: "set (take ?k ?v) \<subseteq> set ?v" by (rule set_take_subset)
  have "newly_hidden chat (autoHideOldMessages s ext chat) =
          filter (\<lambda>i. i \<in> set ?idxs) [0..<length chat]"
    unfolding newly_hidden_def
  proof (rule filter_cong[OF refl])
    fix i assume "i \<in> set [0..<length chat]"
    then have i: "i < length chat" by simp
    show "(\<not> is_system (chat ! i) \<and> is_system (autoHideOldMessages s ext chat ! i)) =
          (i \<in> set ?idxs)"
      using auto_hide_flag[OF i, of s ext] sub en big by (auto simp: visible_set)
  qed
  also have "\<dots> = ?idxs"
  proof (rule filter_mem_sorted)
    have "sorted (take ?k ?v)" using visible_sorted(1) by (rule sorted_wrt_take)
    then show "sorted ?idxs" by (rule sorted_wrt_filter)
    have "distinct (take ?k ?v)" using visible_sorted(2) by (rule distinct_take)
    then show "distinct ?idxs" by (rule distinct_filter)
    show "set ?idxs \<subseteq> {..<length chat}" using sub by (auto simp: visible_set)
  qed
  finally show ?thesis .
qed

text \<open>
  Claim C6.  Let \<open>t\<close> be the threshold (the configured one, or 50 when none is set), \<open>v\<close>
  the number of visible messages and \<open>N = floor((v - t) / 2) * 2\<close>.  Whatever the settings,
  every message hidden has its index in the extracted set, and when \<open>v \<le> t\<close> the chat is
  left as it is.  With auto-hide enabled and \<open>v > t\<close>, the messages hidden are the
  extracted ones among the \<open>N\<close> oldest visible messages, in order; so when these \<open>N\<close>
  oldest visible messages are all extracted, they are exactly the messages hidden, and
  for a threshold that is not negative that is \<open>N\<close> messages.  The witness has threshold
  50 and 60 visible messages: with messages 0 to 57 extracted, messages 0 to 9 are
  hidden, ten of them; with only messages 3 to 57 extracted, messages 3 to 9 are; and
  with threshold 100 none is.
\<close>

theorem auto_hide_policy:
  "set (newly_hidden chat (autoHideOldMessages s ext chat)) \<subseteq> ext \<and>
   (int (length (visible_indices chat)) \<le> threshold_of s \<longrightarrow>
      autoHideOldMessages s ext chat = chat) \<and>
   (autoHideEnabled s \<and> threshold_of s < int (length (visible_indices chat)) \<longrightarrow>
      newly_hidden chat (autoHideOldMessages s ext chat) =
        filter (\<lambda>i. i \<in> ext)
          (take (nat ((int (length (visible_indices chat)) - threshold_of s) div 2 * 2))
             (visible_indices chat))) \<and>
   (autoHideEnabled s \<and> threshold_of s < int (length (visible_indices chat)) \<and>
    set (take (nat ((int (length (visible_indices chat)) - threshold_of s) div 2 * 2))
           (visible_indices chat)) \<subseteq> ext \<longrightarrow>
      newly_hidden chat (autoHideOldMessages s ext chat) =
        take (nat ((int (length (visible_indices chat)) - threshold_of s) div 2 * 2))
          (visible_indices chat) \<and>
      (0 \<le> threshold_of s \<longrightarrow>
         int (length (newly_hidden chat (autoHideOldMessages s ext chat))) =
           (int (length (visible_indices chat)) - threshold_of s) div 2 * 2))"
proof -
  let ?v = "visible_indices chat"
  let ?N = "(int (length ?v) - threshold_of s) div 2 * 2"
  have a: "set (newly_hidden chat (autoHideOldMessages s ext chat)) \<subseteq> ext"
    by (rule newly_hidden_subset)
  have b: "int (length ?v) \<le> threshold_of s \<longrightarrow> autoHideOldMessages s ext chat = chat"
    by (simp add: autoHideOldMessages_def Let_def)
  have c: "newly_hidden chat (autoHideOldMessages s ext chat) =
             filter (\<lambda>i. i \<in> ext) (take (nat ?N) ?v)"
    if "autoHideEnabled s" "threshold_of s < int (length ?v)"
    using that by (rule newly_hidden_filter)
  have d: "newly_hidden chat (autoHideOldMessages s ext chat) = take (nat ?N) ?v"
    if h: "autoHideEnabled s" "threshold_of s < int (length ?v)"
      "set (take (nat ?N) ?v) \<subseteq> ext"
  proof -
    from h(3) have "filter (\<lambda>i. i \<in> ext) (take (nat ?N) ?v) = take (nat ?N) ?v"
      by (auto simp: filter_id_conv)
    with c[OF h(1,2)] show ?thesis by simp
  qed
  have e: "int (length (newly_hidden chat (autoHideOldMessages s ext chat))) = ?N"
    if h: "autoHideEnabled s" "threshold_of s < int (length ?v)"
      "set (take (nat ?N) ?v) \<subseteq> ext" "0 \<le> threshold_of s"
  proof -
    have le: "nat ?N \<le> length ?v" using h(4,2) by (rule hidden_count)
    have "0 \<le> ?N" using h(2) by simp
    with d[OF h(1,2,3)] le show ?thesis by simp
  qed
  from a b c d e show ?thesis by blast
qed

theorem auto_hide_policy_witness:
  "int (length (visible_indices sixty_visible))
     \<le> threshold_of \<lparr>autoHideEnabled = True, autoHideThreshold = 100\<rparr> \<and>
   autoHideOldMessages \<lparr>autoHideEnabled = True, autoHideThreshold = 100\<rparr> {..<58}
     sixty_visible = sixty_visible \<and>
   autoHideEnabled \<lparr>autoHideEnabled = True, autoHideThreshold = 50\<rparr> \<and>
   threshold_of \<lparr>autoHideEnabled = True, autoHideThreshold = 50\<rparr> = 50 \<and>
   length (visible_indices sixty_visible) = 60 \<and>
   set (take 10 (visible_indices sixty_visible)) \<subseteq> {..<58} \<and>
   \<not> set (visible_indices sixty_visible) \<subseteq> {..<58} \<and>
   newly_hidden sixty_visible
     (autoHideOldMessages \<lparr>autoHideEnabled = True, autoHideThreshold = 50\<rparr> {..<58}
        sixty_visible) = [0..<10] \<and>
   int (length (newly_hidden sixty_visible
     (autoHideOldMessages \<lparr>autoHideEnabled = True, autoHideThreshold = 50\<rparr> {..<58}
        sixty_visible))) = 10 \<and>
   newly_hidden sixty_visible
     (autoHideOldMessages \<lparr>autoHideEnabled = True, autoHideThreshold = 50\<rparr> {3..<58}
        sixty_visible) = [3, 4, 5, 6, 7, 8, 9]"
proof -
  have v: "visible_indices sixty_visible = [0..<60]"
    by (simp add: visible_indices_def sixty_visible_def)
  have t: "threshold_of \<lparr>autoHideEnabled = True, autoHideThreshold = 50\<rparr> = 50"
    by (simp add: threshold_of_def)
  have t': "threshold_of \<lparr>autoHideEnabled = True, autoHideThreshold = 100\<rparr> = 100"
    by (simp add: threshold_of_def)
  have tk: "take 10 (visible_indices sixty_visible) = [0..<10]"
    by (simp add: v del: upt_rec_numeral)
  have e: "set (take 10 (visible_indices sixty_visible)) \<subseteq> {..<58}"
    by (simp add: tk atLeast0LessThan del: upt_rec_numeral)
  have ne: "\<not> set (visible_indices sixty_visible) \<subseteq> {..<58}"
    by (simp add: v atLeast0LessThan del: upt_rec_numeral)
  have f: "filter (\<lambda>i. i \<in> {3..<58}) [0..<10] = [3, 4, 5, 6, 7, 8, 9]"
    by (simp add: upt_conv_Cons)
  from v t'
    auto_hide_policy [of sixty_visible "\<lparr>autoHideEnabled = True, autoHideThreshold = 100\<rparr>"
      "{..<58}"]
  have u: "autoHideOldMessages \<lparr>autoHideEnabled = True, autoHideThreshold = 100\<rparr> {..<58}
             sixty_visible = sixty_visible"
    by (simp del: upt_rec_numeral)
  from v t e tk
    auto_hide_policy [of sixty_visible "\<lparr>autoHideEnabled = True, autoHideThreshold = 50\<rparr>"
      "{..<58}"]
  have h: "newly_hidden sixty_visible
     (autoHideOldMessages \<lparr>autoHideEnabled = True, autoHideThreshold = 50\<rparr> {..<58}
        sixty_visible) = [0..<10] \<and>
   int (length (newly_hidden sixty_visible
     (autoHideOldMessages \<lparr>autoHideEnabled = True, autoHideThreshold = 50\<rparr> {..<58}
        sixty_visible))) = 10"
    by (simp del: upt_rec_numeral)
  from v t tk f
    auto_hide_policy [of sixty_visible "\<lparr>autoHideEnabled = True, autoHideThreshold = 50\<rparr>"
      "{3..<58}"]
  have g: "newly_hidden sixty_visible
     (autoHideOldMessages \<lparr>autoHideEnabled = True, autoHideThreshold = 50\<rparr> {3..<58}
        sixty_visible) = [3, 4, 5, 6, 7, 8, 9]"
    by (simp del: upt_rec_numeral)
  from v t t' e ne u h g show ?thesis by (simp del: upt_rec_numeral)
qed

text \<open>
  Claim C8, as amended.  \<open>autoHideOldMessages\<close> clears no flag and sets it only on
  extracted messages among the first \<open>floor((v - t) / 2) * 2\<close> visible ones.
  \<open>unhideMessagesForBranch\<close> sets no flag and clears it on exactly the messages that are
  flagged and carry \<open>is_user\<close> or \<open>name\<close>, whoever flagged them.  So a run clears only
  flags that auto-hide set if, at its start, every flagged message that carries
  \<open>is_user\<close> or \<open>name\<close> was flagged by auto-hide.
\<close>

theorem visibility_flag_changes:
  "newly_visible chat (autoHideOldMessages s ext chat) = [] \<and>
   set (newly_hidden chat (autoHideOldMessages s ext chat)) \<subseteq>
     ext \<inter> set (take (nat ((int (length (visible_indices chat)) - threshold_of s) div 2 * 2))
                   (visible_indices chat)) \<and>
   newly_hidden chat (snd (unhideMessagesForBranch chat)) = [] \<and>
   newly_visible chat (snd (unhideMessagesForBranch chat)) =
     filter (\<lambda>i. is_system (chat ! i) \<and> isAutoHidden (chat ! i)) [0..<length chat] \<and>
   fst (unhideMessagesForBranch chat) =
     length (newly_visible chat (snd (unhideMessagesForBranch chat))) \<and>
   (only_own_hidden t \<longrightarrow> run_ok t acts)"
  using auto_hide_never_clears [of chat s ext] auto_hide_sets [of chat s ext]
    unhide_never_sets [of chat] unhide_clears [of chat] unhide_count [of chat]
    only_own_hidden_run [of t acts]
  by blast

theorem visibility_flag_changes_witness:
  "only_own_hidden \<lparr> t_chat = sixty_visible, t_auto_hidden = [] \<rparr> \<and>
   run_ok \<lparr> t_chat = sixty_visible, t_auto_hidden = [] \<rparr>
     [RunAutoHide \<lparr>autoHideEnabled = True, autoHideThreshold = 50\<rparr> {..<60}, RunUnhide]"
proof -
  have h: "only_own_hidden \<lparr> t_chat = sixty_visible, t_auto_hidden = [] \<rparr>"
    by (simp add: only_own_hidden_def list_all_iff sixty_visible_def)
  from h visibility_flag_changes
       [of sixty_visible "\<lparr>autoHideEnabled = True, autoHideThreshold = 50\<rparr>" "{..<60}"
           "\<lparr> t_chat = sixty_visible, t_auto_hidden = [] \<rparr>"
           "[RunAutoHide \<lparr>autoHideEnabled = True, autoHideThreshold = 50\<rparr> {..<60}, RunUnhide]"]
  show ?thesis by blast
qed

text \<open>
  The claim as stated fails: in a chat whose only message was flagged by the host and
  carries a name, with nothing auto-hidden so far, \<open>unhideMessagesForBranch\<close> clears the
  flag.
\<close>

theorem visibility_flag_counterexample:
  "\<not> run_ok \<lparr> t_chat = narrator_chat, t_auto_hidden = [] \<rparr> [RunUnhide]"
  by (simp add: own_changes_only_def newly_visible_def unhideMessagesForBranch_def
      narrator_chat_def isAutoHidden_def)

subsection \<open>Location links\<close>

lemma map_of_update_at:
  "map_of (update_at k f locs) k' =
     (if k' = k then map_option f (map_of locs k) else map_of locs k')"
  by (induction locs) auto

lemma getLocation_direct:
  "map_of locs (normalizeLocationName name) = Some l \<Longrightarrow> getLocation locs name = Some l"
  by (simp add: getLocation_def)

lemma getLocation_None_key:
  "getLocation locs name = None \<Longrightarrow> map_of locs (normalizeLocationName name) = None"
  by (auto simp: getLocation_def Let_def split: option.splits)

text \<open>
  A call leaves the vault in one of two shapes: the location is reachable by an alias
  only (the call threw), or the entry under the normalized name lists the memory.
\<close>

lemma link_settles:
  "\<exists>locs2. snd (linkMemoryToLocation now m name (Some locs)) = Some locs2 \<and>
     ((getLocation locs2 name \<noteq> None \<and> map_of locs2 (normalizeLocationName name) = None) \<or>
      (\<exists>e. map_of locs2 (normalizeLocationName name) = Some e \<and> m \<in> set (memory_ids e)))"
proof (cases "getLocation locs name")
  case None
  then have k: "map_of locs (normalizeLocationName name) = None"
    by (rule getLocation_None_key)
  show ?thesis
    using None k
    by (simp add: linkMemoryToLocation_def upsertLocation_def Let_def
          map_of_update_at map_add_def)
next
  case (Some l)
  show ?thesis
  proof (cases "map_of locs (normalizeLocationName name)")
    case None
    with Some show ?thesis
      by (simp add: linkMemoryToLocation_def Let_def)
  next
    case (Some e)
    with \<open>getLocation locs name = Some l\<close> show ?thesis
      by (simp add: linkMemoryToLocation_def Let_def map_of_update_at)
  qed
qed

lemma settled_fixed:
  assumes "(getLocation locs name \<noteq> None \<and> map_of locs (normalizeLocationName name) = None) \<or>
           (\<exists>e. map_of locs (normalizeLocationName name) = Some e \<and> m \<in> set (memory_ids e))"
  shows "snd (linkMemoryToLocation now m name (Some locs)) = Some locs"
  using assms
proof (elim disjE conjE exE)
  assume "getLocation locs name \<noteq> None" "map_of locs (normalizeLocationName name) = None"
  then show ?thesis
    by (auto simp: linkMemoryToLocation_def Let_def)
next
  fix e assume e: "map_of locs (normalizeLocationName name) = Some e" "m \<in> set (memory_ids e)"
  then have "getLocation locs name = Some e" by (simp add: getLocation_direct)
  with e show ?thesis
    by (simp add: linkMemoryToLocation_def Let_def)
qed

lemma link_idem:
  "snd (linkMemoryToLocation now2 m name (snd (linkMemoryToLocation now1 m name d))) =
   snd (linkMemoryToLocation now1 m name d)"
proof (cases d)
  case None
  then show ?thesis by (simp add: linkMemoryToLocation_def)
next
  case (Some locs)
  obtain locs2 where "snd (linkMemoryToLocation now1 m name (Some locs)) = Some locs2"
    and "(getLocation locs2 name \<noteq> None \<and> map_of locs2 (normalizeLocationName name) = None) \<or>
         (\<exists>e. map_of locs2 (normalizeLocationName name) = Some e \<and> m \<in> set (memory_ids e))"
    using link_settles by blast
  then show ?thesis using Some by (simp add: settled_fixed)
qed

lemma link_links:
  assumes "linkMemoryToLocation now m name d = (Inr True, d')"
  shows "\<exists>locs' e. d' = Some locs' \<and> map_of locs' (normalizeLocationName name) = Some e \<and>
           m \<in> set (memory_ids e)"
proof (cases d)
  case None
  with assms show ?thesis by (simp add: linkMemoryToLocation_def)
next
  case (Some locs)
  with assms show ?thesis
    by (auto simp: linkMemoryToLocation_def Let_def map_of_update_at
          split: option.splits if_splits)
qed

lemma update_at_distinct:
  "list_all (\<lambda>e. distinct (memory_ids (snd e))) locs \<Longrightarrow>
   map_of locs k = Some entry \<Longrightarrow> m \<notin> set (memory_ids entry) \<Longrightarrow>
   list_all (\<lambda>e. distinct (memory_ids (snd e)))
     (update_at k (\<lambda>l. l\<lparr>memory_ids := memory_ids l @ [m]\<rparr>) locs)"
  by (induction locs) (auto split: if_splits)

lemma link_no_dups:
  assumes a: "no_duplicate_links d"
  shows "no_duplicate_links (snd (linkMemoryToLocation now m name d))"
proof (cases d)
  case None
  then show ?thesis by (simp add: linkMemoryToLocation_def no_duplicate_links_def)
next
  case (Some locs)
  define locs1 where "locs1 = (case getLocation locs name of
                         None \<Rightarrow> fst (upsertLocation now name locs)
                       | Some location \<Rightarrow> locs)"
  have l1: "list_all (\<lambda>e. distinct (memory_ids (snd e))) locs1"
    using a Some
    by (auto simp: locs1_def no_duplicate_links_def upsertLocation_def Let_def
          dest: getLocation_None_key split: option.splits)
  show ?thesis
    using l1 Some
    by (auto simp: linkMemoryToLocation_def Let_def no_duplicate_links_def locs1_def[symmetric]
          update_at_distinct split: option.splits)
qed

text \<open>
  Claim C10.  A second \<open>linkMemoryToLocation\<close> with the same memory id and location name
  leaves the vault, hence every \<open>memory_ids\<close> list, as the first call left it (whatever
  the clock reads, and also when the call throws or the vault is \<open>null\<close>); a call that
  returns \<open>true\<close> leaves the memory listed under the normalized name; and a vault in
  which no location lists a memory twice stays so.
\<close>

theorem link_memory_idempotent:
  "snd (linkMemoryToLocation now2 m name (snd (linkMemoryToLocation now1 m name d))) =
     snd (linkMemoryToLocation now1 m name d) \<and>
   (linkMemoryToLocation now1 m name d = (Inr True, d') \<longrightarrow>
      (\<exists>locs' e. d' = Some locs' \<and> map_of locs' (normalizeLocationName name) = Some e \<and>
                 m \<in> set (memory_ids e))) \<and>
   (no_duplicate_links d \<longrightarrow>
      no_duplicate_links (snd (linkMemoryToLocation now1 m name d)))"
  using link_idem [of now2 m name now1 d] link_links [of now1 m name d d']
    link_no_dups [of d now1 m name]
  by blast

theorem link_memory_idempotent_witness:
  "no_duplicate_links (Some []) \<and>
   linkMemoryToLocation 1 ''mem1'' ''Inn'' (Some []) =
     (Inr True,
      Some [(normalizeLocationName ''Inn'',
             \<lparr> loc_id = normalizeLocationName ''Inn'', loc_name = trim ''Inn'', aliases = [],
               loc_description = [], first_visit = 1, last_visit = 1, visit_count = 1,
               memory_ids = [''mem1''], parent_location = None, loc_tags = [] \<rparr>)]) \<and>
   no_duplicate_links (snd (linkMemoryToLocation 1 ''mem1'' ''Inn'' (Some []))) \<and>
   snd (linkMemoryToLocation 2 ''mem1'' ''Inn''
          (snd (linkMemoryToLocation 1 ''mem1'' ''Inn'' (Some [])))) =
     snd (linkMemoryToLocation 1 ''mem1'' ''Inn'' (Some []))"
proof -
  have h: "no_duplicate_links (Some [])"
    by (simp add: no_duplicate_links_def)
  have r: "linkMemoryToLocation 1 ''mem1'' ''Inn'' (Some []) =
     (Inr True,
      Some [(normalizeLocationName ''Inn'',
             \<lparr> loc_id = normalizeLocationName ''Inn'', loc_name = trim ''Inn'', aliases = [],
               loc_description = [], first_visit = 1, last_visit = 1, visit_count = 1,
               memory_ids = [''mem1''], parent_location = None, loc_tags = [] \<rparr>)])"
    by (simp add: linkMemoryToLocation_def getLocation_def upsertLocation_def Let_def)
  from h r link_memory_idempotent [of 2 "''mem1''" "''Inn''" 1 "Some []"]
  show ?thesis by blast
qed

subsection \<open>The extraction parser\<close>

text \<open>Rounding to a double: integers below \<open>2^53\<close> in magnitude are exact.\<close>

lemma round_half_even_int: "round_half_even (of_int m) = m"
  by (simp add: round_half_even_def)

lemma to_double_in_binade:
  assumes lo: "2 powr of_int k \<le> \<bar>x\<bar>" and hi: "\<bar>x\<bar> < 2 powr (of_int k + 1)"
    and k: "- 1022 \<le> k" "k < 1023"
  shows "to_double x =
           (let r = 2 powr (of_int k - 52) * of_int (round_half_even (x / 2 powr (of_int k - 52)))
            in if 2 ^ 1024 \<le> \<bar>r\<bar> then (if 0 < x then PosInf else NegInf) else Fin r)"
proof -
  have pos: "0 < \<bar>x\<bar>" using lo by (smt (verit) powr_gt_zero)
  then have nz: "x \<noteq> 0" by simp
  have "\<lfloor>log 2 \<bar>x\<bar>\<rfloor> = k"
    using pos lo hi by (subst floor_log_eq_powr_iff) simp_all
  with k nz show ?thesis by (simp add: to_double_def Let_def)
qed

lemma to_double_int:
  assumes "\<bar>n\<bar> < 2 ^ 53"
  shows "to_double (of_int n) = Fin (of_int n)"
proof (cases "n = 0")
  case True
  then show ?thesis by (simp add: to_double_def)
next
  case False
  define x :: real where "x = of_int n"
  have x1: "1 \<le> \<bar>x\<bar>" using False unfolding x_def by (simp flip: of_int_abs)
  have x53: "\<bar>x\<bar> < 2 ^ 53"
  proof -
    have "real_of_int \<bar>n\<bar> < real_of_int (2 ^ 53)" using assms by (simp only: of_int_less_iff)
    then show ?thesis by (simp add: x_def)
  qed
  define e where "e = \<lfloor>log 2 \<bar>x\<bar>\<rfloor>"
  have e0: "0 \<le> e" using x1 by (simp add: e_def)
  have "\<bar>x\<bar> < 2 powr 53" using x53 by simp
  then have "log 2 \<bar>x\<bar> < 53" using x1 by (subst log_less_iff) simp_all
  then have e52: "e \<le> 52" unfolding e_def by linarith
  define k where "k = nat (52 - e)"
  have ulp: "(2::real) powr (real_of_int e - 52) = 1 / 2 ^ k"
  proof -
    have eq: "real_of_int e - 52 = - real k" using e52 by (simp add: k_def)
    have "(2::real) powr (- real k) = 1 / 2 ^ k"
      by (simp add: powr_minus powr_realpow divide_inverse)
    then show ?thesis by (simp only: eq)
  qed
  have q: "x / (1 / 2 ^ k) = of_int (n * 2 ^ k)" by (simp add: x_def)
  have r: "(1 / 2 ^ k) * of_int (round_half_even (x / (1 / 2 ^ k))) = x"
    unfolding q round_half_even_int by (simp add: x_def)
  have m: "max e (- 1022) = e" using e0 by simp
  have big: "\<not> (2 ^ 1024 \<le> \<bar>x\<bar>)"
  proof -
    have "(2::real) ^ 53 \<le> 2 ^ 1024" by (rule power_increasing) simp_all
    with x53 show ?thesis by linarith
  qed
  have "x \<noteq> 0" using x1 by auto
  then have "to_double x = Fin x"
    unfolding to_double_def Let_def e_def[symmetric] m ulp r using big by simp
  then show ?thesis by (simp add: x_def)
qed

text \<open>
  Above \<open>2^53\<close> the doubles are the even integers: \<open>9007199254741001\<close> lies half way
  between two of them and rounds to the one with the even significand.
\<close>

lemma floor_half: "\<lfloor>(9007199254741001::real) / 2\<rfloor> = 4503599627370500"
  by (simp add: floor_eq_iff)

lemma round_half_even_tie: "round_half_even (9007199254741001 / 2) = 4503599627370500"
  unfolding round_half_even_def Let_def floor_half by simp

lemma to_double_late_odd: "to_double 9007199254741001 = Fin 9007199254741000"
proof -
  have "to_double 9007199254741001 =
      (let r = 2 powr (of_int 53 - 52) *
                 of_int (round_half_even (9007199254741001 / 2 powr (of_int 53 - 52)))
       in if 2 ^ 1024 \<le> \<bar>r\<bar>
          then (if 0 < (9007199254741001::real) then PosInf else NegInf) else Fin r)"
    by (rule to_double_in_binade) simp_all
  also have "\<dots> = Fin 9007199254741000"
  proof -
    have p: "(2::real) powr (of_int 53 - 52) = 2" by simp
    have "(9007199254741000::real) < 2 ^ 53 * 2 ^ 971" by simp
    then have "\<not> (2::real) ^ 1024 \<le> 9007199254741000" by (simp flip: power_add)
    then show ?thesis unfolding Let_def p round_half_even_tie by simp
  qed
  finally show ?thesis .
qed

lemma to_double_late_even: "to_double 9007199254741000 = Fin 9007199254741000"
proof -
  have "to_double 9007199254741000 =
      (let r = 2 powr (of_int 53 - 52) *
                 of_int (round_half_even (9007199254741000 / 2 powr (of_int 53 - 52)))
       in if 2 ^ 1024 \<le> \<bar>r\<bar>
          then (if 0 < (9007199254741000::real) then PosInf else NegInf) else Fin r)"
    by (rule to_double_in_binade) simp_all
  also have "\<dots> = Fin 9007199254741000"
  proof -
    have p: "(2::real) powr (of_int 53 - 52) = 2" by simp
    have q: "round_half_even (9007199254741000 / 2) = 4503599627370500"
      using round_half_even_int[of 4503599627370500] by simp
    have "(9007199254741000::real) < 2 ^ 53 * 2 ^ 971" by simp
    then have "\<not> (2::real) ^ 1024 \<le> 9007199254741000" by (simp flip: power_add)
    then show ?thesis unfolding Let_def p q by simp
  qed
  finally show ?thesis .
qed

text \<open>\<open>minMessageId * 1000 + index\<close> is exact while it stays below \<open>2^53\<close>.\<close>

lemma sequence_exact:
  assumes bound: "\<bar>m\<bar> * 1000 + int n \<le> 2 ^ 53" and i: "i < n"
  shows "js_add (js_mul (Fin (real_of_int m)) (Fin 1000)) (Fin (real i)) =
           Fin (real_of_int (m * 1000 + int i))"
proof -
  have "\<bar>m * 1000\<bar> = \<bar>m\<bar> * 1000" by (simp add: abs_mult)
  with bound i have b1: "\<bar>m * 1000\<bar> < 2 ^ 53" by linarith
  have "\<bar>m * 1000 + int i\<bar> \<le> \<bar>m * 1000\<bar> + int i" by linarith
  with \<open>\<bar>m * 1000\<bar> = \<bar>m\<bar> * 1000\<close> bound i have b2: "\<bar>m * 1000 + int i\<bar> < 2 ^ 53" by linarith
  have "real_of_int m * 1000 = real_of_int (m * 1000)" by simp
  then have "js_mul (Fin (real_of_int m)) (Fin 1000) = Fin (real_of_int (m * 1000))"
    using to_double_int[OF b1] by (simp only: js_mul.simps)
  moreover have "real_of_int (m * 1000) + real i = real_of_int (m * 1000 + int i)" by simp
  then have "js_add (Fin (real_of_int (m * 1000))) (Fin (real i)) =
               Fin (real_of_int (m * 1000 + int i))"
    using to_double_int[OF b2] by (simp only: js_add.simps)
  ultimately show ?thesis by (simp only:)
qed

lemma map_indexed_length:
  "map_indexed f k xs = Inr ys \<Longrightarrow> length ys = length xs"
  by (induction xs arbitrary: k ys) (auto split: sum.splits)

lemma map_indexed_nth:
  "map_indexed f k xs = Inr ys \<Longrightarrow> i < length xs \<Longrightarrow> f (xs ! i) (k + i) = Inr (ys ! i)"
proof (induction xs arbitrary: k ys i)
  case Nil
  then show ?case by simp
next
  case (Cons x xs)
  from Cons.prems(1) obtain y ys' where fx: "f x k = Inr y"
    and rest: "map_indexed f (Suc k) xs = Inr ys'" and ys: "ys = y # ys'"
    by (auto split: sum.splits)
  show ?case
  proof (cases i)
    case 0
    with fx ys show ?thesis by simp
  next
    case (Suc n)
    with Cons.prems(2) have "n < length xs" by simp
    from Cons.IH[OF rest this] Suc ys show ?thesis by simp
  qed
qed

lemma Math_min_list_Min:
  "ids \<noteq> [] \<Longrightarrow> Math_min_list ids = Fin (real_of_int (Min (set ids)))"
proof (cases ids)
  case Nil
  assume "ids \<noteq> []"
  with Nil show ?thesis by simp
next
  case (Cons a list)
  have "fold min list a = Min (set (a # list))" by (rule Min.set_eq_fold[symmetric])
  with Cons show ?thesis by simp
qed

lemma sequence_injective:
  assumes "i < 1000" "j < 1000"
    and "real_of_int (m * 1000 + int i) = real_of_int (n * 1000 + int j)"
  shows "m = n \<and> i = j"
proof -
  from assms(3) have eq: "m * 1000 + int i = n * 1000 + int j" by (simp only: of_int_eq_iff)
  have "(m * 1000 + int i) mod 1000 = int i" using assms(1) by simp
  moreover have "(n * 1000 + int j) mod 1000 = int j" using assms(2) by simp
  ultimately have ij: "int i = int j" using eq by simp
  with eq have "m * 1000 = n * 1000" by simp
  with ij show ?thesis by simp
qed

lemma enrich_sequence:
  assumes "enrich_event gen now ids mn b ev i = Inr x"
  shows "x_sequence x = js_add (js_mul mn (Fin 1000)) (Fin (real i))"
proof (cases "ToNumber (or_else (field ev ''importance'') (JNum 3))")
  case (Inl e)
  with assms show ?thesis by (simp add: enrich_event_def split: if_splits)
next
  case (Inr n)
  with assms have "ev \<noteq> JNull" by (auto simp: enrich_event_def)
  with assms Inr show ?thesis by (auto simp: enrich_event_def)
qed

lemma parse_sequence_raw:
  assumes res: "parseExtractionResult parse gen now s messages b = Inr evs"
    and i: "i < length evs"
  shows "x_sequence (evs ! i) =
           js_add (js_mul (Math_min_list (map msg_id messages)) (Fin 1000)) (Fin (real i))"
proof (cases "truthy (safeParseJSON parse s)")
  case False
  with res i show ?thesis by (simp add: parseExtractionResult_def)
next
  case True
  define events where
    "events = (case safeParseJSON parse s of JArr xs \<Rightarrow> xs | _ \<Rightarrow> [safeParseJSON parse s])"
  define f where "f = enrich_event gen now (map msg_id messages)
                        (Math_min_list (map msg_id messages)) b"
  from res True have m: "map_indexed f 0 events = Inr evs"
    by (simp add: parseExtractionResult_def Let_def events_def f_def)
  then have "length evs = length events" by (rule map_indexed_length)
  with i m have "f (events ! i) (0 + i) = Inr (evs ! i)"
    by (intro map_indexed_nth) simp_all
  then show ?thesis
    unfolding f_def by (simp add: enrich_sequence)
qed

lemma parse_sequence:
  assumes ne: "messages \<noteq> []"
    and res: "parseExtractionResult parse gen now s messages b = Inr evs"
    and bound: "\<bar>Min (set (map msg_id messages))\<bar> * 1000 + int (length evs) \<le> 2 ^ 53"
    and i: "i < length evs"
  shows "x_sequence (evs ! i) =
           Fin (real_of_int (Min (set (map msg_id messages)) * 1000 + int i))"
proof -
  from ne have "Math_min_list (map msg_id messages) =
                  Fin (real_of_int (Min (set (map msg_id messages))))"
    by (simp add: Math_min_list_Min)
  with parse_sequence_raw[OF res i] sequence_exact[OF bound i] show ?thesis
    by (simp only:)
qed

lemma ToNumber_plain:
  "(case v of JObj _ \<Rightarrow> False | JArr _ \<Rightarrow> False | _ \<Rightarrow> True) \<Longrightarrow> \<exists>n. ToNumber v = Inr n"
  by (cases v) simp_all

lemma enrich_plain:
  assumes "plain_event e"
  shows "\<exists>x. enrich_event gen now ids mn b e i = Inr x"
proof -
  from assms obtain kvs where e: "e = JObj kvs"
    by (auto simp: plain_event_def split: json.splits)
  have "\<exists>n. ToNumber (or_else (field e ''importance'') (JNum 3)) = Inr n"
  proof (rule ToNumber_plain)
    show "case or_else (field e ''importance'') (JNum 3) of
            JObj _ \<Rightarrow> False | JArr _ \<Rightarrow> False | _ \<Rightarrow> True"
      using assms e
      by (auto simp: plain_event_def or_else_def field_def split: option.splits json.splits)
  qed
  then obtain n where "ToNumber (or_else (field e ''importance'') (JNum 3)) = Inr n" ..
  with e show ?thesis by (simp add: enrich_event_def)
qed

lemma map_indexed_total:
  assumes "\<And>x i. x \<in> set xs \<Longrightarrow> \<exists>y. f x i = Inr y"
  shows "\<exists>ys. map_indexed f k xs = Inr ys \<and> length ys = length xs"
  using assms
proof (induction xs arbitrary: k)
  case Nil
  then show ?case by simp
next
  case (Cons x xs)
  from Cons.prems obtain y where y: "f x k = Inr y" by (meson list.set_intros(1))
  from Cons.prems have "\<And>x' i. x' \<in> set xs \<Longrightarrow> \<exists>y. f x' i = Inr y" by simp
  from Cons.IH[OF this] obtain ys where "map_indexed f (Suc k) xs = Inr ys" "length ys = length xs"
    by blast
  with y show ?case by simp
qed

lemma map_indexed_null:
  assumes "JNull \<in> set xs"
  shows "map_indexed (enrich_event gen now ids mn b) k xs = Inl TypeError"
  using assms
proof (induction xs arbitrary: k)
  case Nil
  then show ?case by simp
next
  case (Cons x xs)
  show ?case
  proof (cases "enrich_event gen now ids mn b x k")
    case (Inl err)
    then show ?thesis by (cases err) simp
  next
    case (Inr y)
    then have "x \<noteq> JNull" by (auto simp: enrich_event_def)
    with Cons.prems have "JNull \<in> set xs" by simp
    from Cons.IH[OF this] Inr show ?thesis by simp
  qed
qed

text \<open>
  What \<open>parseExtractionResult\<close> returns.  A text that is not JSON, or whose value is
  falsy, gives the empty list.  An event object gives one event and an array of event
  objects one event per element, when no \<open>importance\<close> is an object or an array.  An
  array with a \<open>null\<close> element makes the call throw, whatever its other elements are.
\<close>

lemma parse_unparseable:
  "parse s = None \<Longrightarrow> parseExtractionResult parse gen now s messages b = Inr []"
  by (simp add: parseExtractionResult_def safeParseJSON_def)

lemma parse_falsy:
  "parse s = Some v \<Longrightarrow> \<not> truthy v \<Longrightarrow> parseExtractionResult parse gen now s messages b = Inr []"
  by (simp add: parseExtractionResult_def safeParseJSON_def)

lemma parse_object:
  assumes "parse s = Some (JObj kvs)" "plain_event (JObj kvs)"
  shows "\<exists>e. parseExtractionResult parse gen now s messages b = Inr [e]"
proof -
  from enrich_plain[OF assms(2)] obtain x where
    "enrich_event gen now (map msg_id messages) (Math_min_list (map msg_id messages)) b
       (JObj kvs) 0 = Inr x" by blast
  with assms(1) show ?thesis
    by (simp add: parseExtractionResult_def safeParseJSON_def)
qed

lemma parse_array:
  assumes "parse s = Some (JArr xs)" "list_all plain_event xs"
  shows "\<exists>evs. parseExtractionResult parse gen now s messages b = Inr evs \<and>
               length evs = length xs"
proof -
  have "\<exists>ys. map_indexed (enrich_event gen now (map msg_id messages)
                (Math_min_list (map msg_id messages)) b) 0 xs = Inr ys \<and> length ys = length xs"
    using assms(2) by (intro map_indexed_total enrich_plain) (simp add: list_all_iff)
  with assms(1) show ?thesis
    by (simp add: parseExtractionResult_def safeParseJSON_def Let_def)
qed

lemma parse_null_element:
  assumes "parse s = Some (JArr xs)" "JNull \<in> set xs"
  shows "parseExtractionResult parse gen now s messages b = Inl TypeError"
  using assms by (simp add: parseExtractionResult_def safeParseJSON_def Let_def map_indexed_null)

lemma trim_high: "trim ''high'' = ''high''"
  by code_simp

lemma h_not_digit: "is_digit 10 (CHR ''h'') = False"
  by code_simp

lemma unsigned_decimal_high: "unsigned_decimal ''high'' = NaN"
  by (simp add: unsigned_decimal_def Let_def h_not_digit)

lemma StringToNumber_high: "StringToNumber ''high'' = NaN"
  by (simp add: StringToNumber_def Let_def trim_high unsigned_decimal_high)

lemma to_double_5000: "to_double 5000 = Fin 5000"
  using to_double_int [of 5000] by simp

text \<open>
  Claim C5, as amended.  For a batch with at least one source message whose sequences
  stay within \<open>2^53\<close> (the smallest message id times 1000, plus the number of events),
  the event at index \<open>i\<close> of the result has \<open>sequence = min(messageIds) * 1000 + i\<close>, and
  the sequences of one batch are pairwise different.  Of two such batches with different
  smallest message ids, no event of one at an index below 1000 shares its sequence with
  an event of the other at an index below 1000.  Two batches with the same smallest
  message id give the same sequence to their events at the same index: the index starts
  at 0 in every call.
\<close>

theorem sequence_assignment:
  assumes "messages \<noteq> []"
    and "parseExtractionResult parse gen now s messages b = Inr evs"
    and "\<bar>Min (set (map msg_id messages))\<bar> * 1000 + int (length evs) \<le> 2 ^ 53"
    and "messages' \<noteq> []"
    and "parseExtractionResult parse' gen' now' s' messages' b' = Inr evs'"
    and "\<bar>Min (set (map msg_id messages'))\<bar> * 1000 + int (length evs') \<le> 2 ^ 53"
  shows "(\<forall>i<length evs. x_sequence (evs ! i) =
            Fin (real_of_int (Min (set (map msg_id messages)) * 1000 + int i))) \<and>
         distinct (map x_sequence evs) \<and>
         (Min (set (map msg_id messages)) \<noteq> Min (set (map msg_id messages')) \<longrightarrow>
            (\<forall>i<length evs. \<forall>j<length evs'.
               i < 1000 \<and> j < 1000 \<longrightarrow> x_sequence (evs ! i) \<noteq> x_sequence (evs' ! j))) \<and>
         (Min (set (map msg_id messages)) = Min (set (map msg_id messages')) \<longrightarrow>
            (\<forall>i<length evs. i < length evs' \<longrightarrow>
               x_sequence (evs ! i) = x_sequence (evs' ! i)))"
proof -
  have formula: "\<forall>i<length evs. x_sequence (evs ! i) =
      Fin (real_of_int (Min (set (map msg_id messages)) * 1000 + int i))"
    using assms(1,2,3) by (simp add: parse_sequence)
  have formula': "\<forall>j<length evs'. x_sequence (evs' ! j) =
      Fin (real_of_int (Min (set (map msg_id messages')) * 1000 + int j))"
    using assms(4,5,6) by (simp add: parse_sequence)
  have "distinct (map x_sequence evs)"
    unfolding distinct_conv_nth
  proof (intro allI impI)
    fix i j assume "i < length (map x_sequence evs)" "j < length (map x_sequence evs)" "i \<noteq> j"
    then show "map x_sequence evs ! i \<noteq> map x_sequence evs ! j"
      using formula by simp
  qed
  moreover have "Min (set (map msg_id messages)) \<noteq> Min (set (map msg_id messages')) \<longrightarrow>
      (\<forall>i<length evs. \<forall>j<length evs'.
         i < 1000 \<and> j < 1000 \<longrightarrow> x_sequence (evs ! i) \<noteq> x_sequence (evs' ! j))"
  proof (intro allI impI notI)
    fix i j
    assume d: "Min (set (map msg_id messages)) \<noteq> Min (set (map msg_id messages'))"
      and i: "i < length evs" and j: "j < length evs'"
      and h: "i < 1000 \<and> j < 1000"
      and eq: "x_sequence (evs ! i) = x_sequence (evs' ! j)"
    from i j eq formula formula'
    have "real_of_int (Min (set (map msg_id messages)) * 1000 + int i) =
          real_of_int (Min (set (map msg_id messages')) * 1000 + int j)"
      by simp
    with h have "Min (set (map msg_id messages)) = Min (set (map msg_id messages')) \<and> i = j"
      by (intro sequence_injective) simp_all
    with d show False by simp
  qed
  moreover have "Min (set (map msg_id messages)) = Min (set (map msg_id messages')) \<longrightarrow>
      (\<forall>i<length evs. i < length evs' \<longrightarrow> x_sequence (evs ! i) = x_sequence (evs' ! i))"
    using formula formula' by simp
  ultimately show ?thesis using formula by blast
qed

theorem sequence_assignment_witness:
  "example_messages \<noteq> [] \<and> batch_6 \<noteq> [] \<and> batch_5_6 \<noteq> [] \<and> batch_5_9 \<noteq> [] \<and>
   parseExtractionResult example_reader (\<lambda>i. ''id'') 0 ''[{},{}]'' example_messages None =
     Inr (projr (parseExtractionResult example_reader (\<lambda>i. ''id'') 0 ''[{},{}]''
                   example_messages None)) \<and>
   length (projr (parseExtractionResult example_reader (\<lambda>i. ''id'') 0 ''[{},{}]''
                    example_messages None)) = 2 \<and>
   parseExtractionResult example_reader (\<lambda>i. ''id'') 0 ''[{},{}]'' batch_6 None =
     Inr (projr (parseExtractionResult example_reader (\<lambda>i. ''id'') 0 ''[{},{}]''
                   batch_6 None)) \<and>
   length (projr (parseExtractionResult example_reader (\<lambda>i. ''id'') 0 ''[{},{}]''
                    batch_6 None)) = 2 \<and>
   Min (set (map msg_id example_messages)) = 5 \<and>
   Min (set (map msg_id batch_6)) = 6 \<and>
   \<bar>Min (set (map msg_id example_messages))\<bar> * 1000 + 2 \<le> (2::int) ^ 53 \<and>
   \<bar>Min (set (map msg_id batch_6))\<bar> * 1000 + 2 \<le> (2::int) ^ 53 \<and>
   map x_sequence (projr (parseExtractionResult example_reader (\<lambda>i. ''id'') 0 ''[{},{}]''
                            example_messages None)) = [Fin 5000, Fin 5001] \<and>
   map x_sequence (projr (parseExtractionResult example_reader (\<lambda>i. ''id'') 0 ''[{},{}]''
                            batch_6 None)) = [Fin 6000, Fin 6001] \<and>
   distinct (map x_sequence
     (projr (parseExtractionResult example_reader (\<lambda>i. ''id'') 0 ''[{},{}]''
               example_messages None))) \<and>
   x_sequence (projr (parseExtractionResult example_reader (\<lambda>i. ''id'') 0 ''[{},{}]''
                        example_messages None) ! 1)
     \<noteq> x_sequence (projr (parseExtractionResult example_reader (\<lambda>i. ''id'') 0 ''[{},{}]''
                            batch_6 None) ! 0) \<and>
   parseExtractionResult example_reader (\<lambda>i. ''id'') 0 ''{}'' batch_5_6 None =
     Inr (projr (parseExtractionResult example_reader (\<lambda>i. ''id'') 0 ''{}'' batch_5_6 None)) \<and>
   parseExtractionResult example_reader (\<lambda>i. ''id'') 0 ''{}'' batch_5_9 None =
     Inr (projr (parseExtractionResult example_reader (\<lambda>i. ''id'') 0 ''{}'' batch_5_9 None)) \<and>
   Min (set (map msg_id batch_5_6)) = Min (set (map msg_id batch_5_9)) \<and>
   x_sequence (projr (parseExtractionResult example_reader (\<lambda>i. ''id'') 0 ''{}''
                        batch_5_6 None) ! 0)
     = x_sequence (projr (parseExtractionResult example_reader (\<lambda>i. ''id'') 0 ''{}''
                            batch_5_9 None) ! 0)"
proof -
  let ?a = "parseExtractionResult example_reader (\<lambda>i. ''id'') 0 ''[{},{}]''
              example_messages None"
  let ?b = "parseExtractionResult example_reader (\<lambda>i. ''id'') 0 ''[{},{}]'' batch_6 None"
  let ?c = "parseExtractionResult example_reader (\<lambda>i. ''id'') 0 ''{}'' batch_5_6 None"
  let ?d = "parseExtractionResult example_reader (\<lambda>i. ''id'') 0 ''{}'' batch_5_9 None"
  have ne: "example_messages \<noteq> []" "batch_6 \<noteq> []" "batch_5_6 \<noteq> []" "batch_5_9 \<noteq> []"
    by (simp_all add: example_messages_def batch_6_def batch_5_6_def batch_5_9_def)
  have "\<exists>e0 e1. ?a = Inr [e0, e1]"
    by (simp add: parseExtractionResult_def safeParseJSON_def example_reader_def
          enrich_event_def or_else_def field_def Let_def)
  then obtain a0 a1 where a: "?a = Inr [a0, a1]" by blast
  have "\<exists>e0 e1. ?b = Inr [e0, e1]"
    by (simp add: parseExtractionResult_def safeParseJSON_def example_reader_def
          enrich_event_def or_else_def field_def Let_def)
  then obtain b0 b1 where b: "?b = Inr [b0, b1]" by blast
  have "\<exists>e0. ?c = Inr [e0]"
    by (simp add: parseExtractionResult_def safeParseJSON_def example_reader_def
          enrich_event_def or_else_def field_def Let_def)
  then obtain c0 where c: "?c = Inr [c0]" by blast
  have "\<exists>e0. ?d = Inr [e0]"
    by (simp add: parseExtractionResult_def safeParseJSON_def example_reader_def
          enrich_event_def or_else_def field_def Let_def)
  then obtain d0 where d: "?d = Inr [d0]" by blast
  have mn: "Min (set (map msg_id example_messages)) = 5" "Min (set (map msg_id batch_6)) = 6"
    "Min (set (map msg_id batch_5_6)) = 5" "Min (set (map msg_id batch_5_9)) = 5"
    by (simp_all add: example_messages_def batch_6_def batch_5_6_def batch_5_9_def)
  have ba: "\<bar>Min (set (map msg_id example_messages))\<bar> * 1000 + int (length [a0, a1]) \<le> 2 ^ 53"
    and bb: "\<bar>Min (set (map msg_id batch_6))\<bar> * 1000 + int (length [b0, b1]) \<le> 2 ^ 53"
    and bc: "\<bar>Min (set (map msg_id batch_5_6))\<bar> * 1000 + int (length [c0]) \<le> 2 ^ 53"
    and bd: "\<bar>Min (set (map msg_id batch_5_9))\<bar> * 1000 + int (length [d0]) \<le> 2 ^ 53"
    unfolding mn by simp_all
  from sequence_assignment [OF ne(1) a ba ne(2) b bb] mn
  have ab: "x_sequence a0 = Fin 5000" "x_sequence a1 = Fin 5001"
    "distinct (map x_sequence [a0, a1])" "x_sequence a1 \<noteq> x_sequence b0"
    by (auto simp: All_less_Suc)
  from sequence_assignment [OF ne(2) b bb ne(1) a ba] mn
  have bs: "x_sequence b0 = Fin 6000" "x_sequence b1 = Fin 6001"
    by (simp_all add: All_less_Suc)
  from sequence_assignment [OF ne(3) c bc ne(4) d bd] mn
  have cd: "x_sequence c0 = x_sequence d0"
    by auto
  from ne a b c d mn ab bs cd show ?thesis by simp
qed

text \<open>
  The claim as stated fails.  The batch of messages 5 and 6 and the batch of messages 5
  and 9 start at the same message; each yields one event, and both events get the
  sequence 5000.
\<close>

theorem sequence_assignment_counterexample:
  "map_sum id (map x_sequence)
     (parseExtractionResult example_reader (\<lambda>i. ''id'') 0 ''{}'' batch_5_6 None)
     = Inr [Fin 5000] \<and>
   map_sum id (map x_sequence)
     (parseExtractionResult example_reader (\<lambda>i. ''id'') 0 ''{}'' batch_5_9 None)
     = Inr [Fin 5000] \<and>
   map_sum id (map x_message_ids)
     (parseExtractionResult example_reader (\<lambda>i. ''id'') 0 ''{}'' batch_5_6 None)
     = Inr [[5, 6]] \<and>
   map_sum id (map x_message_ids)
     (parseExtractionResult example_reader (\<lambda>i. ''id'') 0 ''{}'' batch_5_9 None)
     = Inr [[5, 9]]"
  by (simp add: parseExtractionResult_def safeParseJSON_def example_reader_def
      enrich_event_def or_else_def field_def Let_def batch_5_6_def batch_5_9_def
      to_double_5000)

text \<open>
  Beyond \<open>2^53\<close> the sum is rounded, and two events of one batch can share a sequence:
  for the message with id 9007199254741 the events at indices 0 and 1 both get
  9007199254741000.
\<close>

lemma sequence_rounding_collision:
  "map_sum id (map x_sequence)
     (parseExtractionResult example_reader (\<lambda>i. ''id'') 0 ''[{},{}]'' batch_late None)
     = Inr [Fin 9007199254741000, Fin 9007199254741000]"
  by (simp add: parseExtractionResult_def safeParseJSON_def example_reader_def
      enrich_event_def or_else_def field_def Let_def batch_late_def
      to_double_late_even to_double_late_odd)

text \<open>
  Claim C9 at a failing input.  The text \<open>[null]\<close> is a parseable array, and the call
  throws a \<open>TypeError\<close> instead of returning a list of events: the callback reads
  \<open>event.characters_involved\<close> of \<open>null\<close>.  For the text \<open>[{},null]\<close> the event before
  the \<open>null\<close> is lost with it.
\<close>

theorem parse_null_element_throws:
  "example_reader ''[null]'' = Some (JArr [JNull]) \<and>
   parseExtractionResult example_reader (\<lambda>i. ''id'') 0 ''[null]'' example_messages None
     = Inl TypeError \<and>
   example_reader ''[{},null]'' = Some (JArr [JObj [], JNull]) \<and>
   parseExtractionResult example_reader (\<lambda>i. ''id'') 0 ''[{},null]'' example_messages None
     = Inl TypeError"
  by (simp add: parseExtractionResult_def safeParseJSON_def example_reader_def
      enrich_event_def or_else_def field_def)

text \<open>
  Claim C2 at a failing input.  For the event
  \<open>{"summary": "They argue", "importance": "high"}\<close> the callback returns an event whose
  importance is \<open>NaN\<close>: \<open>"high" || 3\<close> is \<open>"high"\<close>, \<open>Math.max(1, "high")\<close> is \<open>NaN\<close>, and so
  is \<open>Math.min(5, NaN)\<close>.
\<close>

theorem importance_of_worded_event:
  "\<exists>e. enrich_event gen now ids mn b worded_event i = Inr e \<and> x_importance e = NaN"
  by (simp add: enrich_event_def worded_event_def field_def or_else_def StringToNumber_high
      Math_max_def Math_min_def)

text \<open>
  The numeric case.  For an event that is not \<open>null\<close>, an importance that is a number
  other than \<open>0\<close> is clamped into \<open>[1,5]\<close>, and an importance that is missing or falsy
  gives \<open>3\<close>.
\<close>

lemma importance_clamped_for_numbers:
  assumes "event \<noteq> JNull"
  shows "(field event ''importance'' = Some (JNum r) \<and> r \<noteq> 0 \<longrightarrow>
            (\<exists>e. enrich_event gen now ids mn b event i = Inr e \<and>
                  x_importance e = Fin (min 5 (max 1 r)) \<and> 1 \<le> min 5 (max 1 r) \<and>
                  min 5 (max 1 r) \<le> 5)) \<and>
         ((case field event ''importance'' of None \<Rightarrow> True | Some v \<Rightarrow> \<not> truthy v) \<longrightarrow>
            (\<exists>e. enrich_event gen now ids mn b event i = Inr e \<and> x_importance e = Fin 3))"
  using assms
  by (auto simp: enrich_event_def or_else_def Math_max_def Math_min_def min_def max_def
      split: option.splits)

lemma importance_clamped_for_numbers_example:
  "JObj [(''importance'', JNum 9)] \<noteq> JNull \<and>
   field (JObj [(''importance'', JNum 9)]) ''importance'' = Some (JNum 9) \<and>
   (\<exists>e. enrich_event (\<lambda>i. ''id'') 0 [5] (Fin 5) None (JObj [(''importance'', JNum 9)]) 0
           = Inr e \<and> x_importance e = Fin 5) \<and>
   JObj [(''importance'', JNum 0)] \<noteq> JNull \<and>
   \<not> truthy (JNum 0) \<and>
   (\<exists>e. enrich_event (\<lambda>i. ''id'') 0 [5] (Fin 5) None (JObj [(''importance'', JNum 0)]) 0
           = Inr e \<and> x_importance e = Fin 3)"
proof -
  have f9: "field (JObj [(''importance'', JNum 9)]) ''importance'' = Some (JNum 9)"
    and f0: "field (JObj [(''importance'', JNum 0)]) ''importance'' = Some (JNum 0)"
    by (simp_all add: field_def)
  from f9 importance_clamped_for_numbers
            [of "JObj [(''importance'', JNum 9)]" 9 "\<lambda>i. ''id''" 0 "[5]" "Fin 5" None 0]
  have a: "\<exists>e. enrich_event (\<lambda>i. ''id'') 0 [5] (Fin 5) None (JObj [(''importance'', JNum 9)]) 0
                 = Inr e \<and> x_importance e = Fin 5"
    by simp
  from f0 importance_clamped_for_numbers
            [of "JObj [(''importance'', JNum 0)]" 0 "\<lambda>i. ''id''" 0 "[5]" "Fin 5" None 0]
  have b: "\<exists>e. enrich_event (\<lambda>i. ''id'') 0 [5] (Fin 5) None (JObj [(''importance'', JNum 0)]) 0
                 = Inr e \<and> x_importance e = Fin 3"
    by simp
  from f9 a b show ?thesis by simp
qed

end
